theory Spec2Isabelle
  imports Complex_Main
begin

section \<open>Online classification of Wikipedia changes: the embedding\<close>

text \<open>
  The notebook \<^verbatim>\<open>2014-10-10-Classifying_Wikipedia_Changes.ipynb\<close> holds a
  feature extractor (\<^verbatim>\<open>get_length_statistics\<close>, \<^verbatim>\<open>get_data\<close>), a logistic trainer
  (\<^verbatim>\<open>predict\<close>, \<^verbatim>\<open>update\<close>, the training loop) and an evaluation loop that fills a
  confusion matrix.

  Python's \<^verbatim>\<open>float\<close> is modelled by \<^typ>\<open>real\<close>: arithmetic is exact, there is no
  rounding, no infinity and no NaN. Python's \<^verbatim>\<open>int\<close> is \<^typ>\<open>int\<close>. Every exception
  the code can raise is a value of \<open>error\<close>; a function that can raise returns
  \<open>error + 'a\<close> with \<open>Inl\<close> for the exception.
\<close>

datatype error = IndexError | KeyError | ValueError | ZeroDivisionError | OverflowError

subsection \<open>Constants of the notebook\<close>

definition D :: nat where
  "D = 2"

definition D_sparse :: nat where
  "D_sparse = 2 ^ 18"

definition K :: nat where
  "K = 3"

subsection \<open>Library functions as the code uses them\<close>

text \<open>\<^verbatim>\<open>math.sqrt\<close> raises \<^verbatim>\<open>ValueError\<close> on a negative argument.\<close>

definition py_sqrt :: "real \<Rightarrow> error + real" where
  "py_sqrt v = (if v < 0 then Inl ValueError else Inr (sqrt v))"

text \<open>
  \<^verbatim>\<open>math.exp\<close> raises \<^verbatim>\<open>OverflowError\<close> when the result is beyond the largest
  finite double, \<^verbatim>\<open>(2 - 2**-52) * 2**1023\<close>, which is \<open>(2\<^sup>5\<^sup>3 - 1) * 2\<^sup>9\<^sup>7\<^sup>1\<close>.
\<close>

definition DBL_MAX :: real where
  "DBL_MAX = (2 ^ 53 - 1) * 2 ^ 971"

definition py_exp :: "real \<Rightarrow> error + real" where
  "py_exp z = (if DBL_MAX < exp z then Inl OverflowError else Inr (exp z))"

text \<open>
  List indexing \<^verbatim>\<open>xs[i]\<close>: a negative index counts from the end, an index out of
  range raises \<^verbatim>\<open>IndexError\<close>. \<open>py_slot\<close> is the position read or written.
\<close>

definition py_slot :: "'a list \<Rightarrow> int \<Rightarrow> error + nat" where
  "py_slot xs i =
     (let n = int (length xs) in
      if 0 \<le> i \<and> i < n then Inr (nat i)
      else if - n \<le> i \<and> i < 0 then Inr (nat (n + i))
      else Inl IndexError)"

definition py_index :: "'a list \<Rightarrow> int \<Rightarrow> error + 'a" where
  "py_index xs i = (case py_slot xs i of Inl e \<Rightarrow> Inl e | Inr j \<Rightarrow> Inr (xs ! j))"

subsection \<open>The extractor\<close>

text \<open>
  \<^verbatim>\<open>
  def get_length_statistics(length, n, mean, M2):
      n += 1
      delta = length-mean
      mean += float(delta)/n
      M2 += delta*(length - mean)
      if n < 2:
          return mean, 0., M2
      variance = float(M2)/(n - 1)
      std = sqrt(variance)
      return mean, std, M2
  \<close>
  The result is the triple \<open>(mean, std, M2)\<close>. The float division raises
  \<^verbatim>\<open>ZeroDivisionError\<close> when the incremented count is zero.
\<close>

definition get_length_statistics ::
  "real \<Rightarrow> int \<Rightarrow> real \<Rightarrow> real \<Rightarrow> error + (real \<times> real \<times> real)" where
  "get_length_statistics len n mean M2 =
     (let n1 = n + 1;
          delta = len - mean
      in if n1 = 0 then Inl ZeroDivisionError
         else
           let mean1 = mean + delta / of_int n1;
               M21 = M2 + delta * (len - mean1)
           in if n1 < 2 then Inr (mean1, 0, M21)
              else
                let variance = M21 / of_int (n1 - 1)
                in case py_sqrt variance of
                     Inl e \<Rightarrow> Inl e
                   | Inr std \<Rightarrow> Inr (mean1, std, M21))"

text \<open>
  One record of the change feed: the fields \<^verbatim>\<open>get_data\<close> reads. A flag is
  \<open>None\<close> when the record has no such key (\<^verbatim>\<open>el.get('bot') is None\<close>).
\<close>

record change =
  oldlen :: int
  newlen :: int
  parsedcomment :: string
  user :: string
  title :: string
  bot_flag :: "string option"
  minor_flag :: "string option"
  new_flag :: "string option"

text \<open>The generator's local statistics \<^verbatim>\<open>length_n, length_mean, length_M2\<close>.\<close>

record length_stats =
  length_n :: int
  length_mean :: real
  length_M2 :: real

definition fresh_stats :: length_stats where
  "fresh_stats = \<lparr>length_n = 0, length_mean = 0, length_M2 = 0\<rparr>"

text \<open>
  What the generator yields: \<open>(Y, X, X_sparse)\<close>. The code yields the same three
  list objects every time and overwrites them for the next record; both loops of the
  notebook use them only inside the iteration that received them, so they are values here.
\<close>

type_synonym observation = "int list \<times> real list \<times> int list"

text \<open>
  Python's builtin \<^verbatim>\<open>hash\<close> is not part of the repository: it is the parameter
  \<open>hash\<close>. \<^verbatim>\<open>abs(hash(tag + s)) % D_sparse\<close> on Python integers is \<open>mod\<close> on
  \<^typ>\<open>int\<close> (the modulus is positive).
\<close>

definition sparse_index :: "(string \<Rightarrow> int) \<Rightarrow> string \<Rightarrow> string \<Rightarrow> int" where
  "sparse_index hash tag s = \<bar>hash (tag @ s)\<bar> mod int D_sparse"

definition flag_value :: "string option \<Rightarrow> int" where
  "flag_value f = (if f = None then 0 else 1)"

text \<open>
  The body of \<^verbatim>\<open>for el in r_json:\<close> in \<^verbatim>\<open>get_data\<close>:
  \<^verbatim>\<open>
  length = abs(el['newlen'] - el['oldlen'])
  length_n += 1
  length_mean, length_std, length_M2 = get_length_statistics(length, length_n, length_mean, length_M2)
  X[1] = (length - length_mean)/length_std if length_std > 0. else length
  X_sparse[0] = abs(hash('comment_' + el['parsedcomment'])) % D_sparse
  X_sparse[1] = abs(hash('username_' + el['user'])) % D_sparse
  X_sparse[2] = abs(hash('title_' + el['title'])) % D_sparse
  Y[0] = 0 if el.get('bot') is None else 1
  Y[1] = 0 if el.get('minor') is None else 1
  Y[2] = 0 if el.get('new') is None else 1
  yield Y, X, X_sparse
  \<close>
\<close>

definition get_data_step ::
  "(string \<Rightarrow> int) \<Rightarrow> length_stats \<Rightarrow> change \<Rightarrow> error + (length_stats \<times> observation)" where
  "get_data_step hash st el =
     (let len = \<bar>newlen el - oldlen el\<bar>;
          n = length_n st + 1
      in case get_length_statistics (of_int len) n (length_mean st) (length_M2 st) of
           Inl e \<Rightarrow> Inl e
         | Inr (mean, std, M2) \<Rightarrow>
             let X = [1, if 0 < std then (of_int len - mean) / std else of_int len];
                 X_sparse = [sparse_index hash ''comment_'' (parsedcomment el),
                             sparse_index hash ''username_'' (user el),
                             sparse_index hash ''title_'' (title el)];
                 Y = [flag_value (bot_flag el), flag_value (minor_flag el),
                      flag_value (new_flag el)]
             in Inr (\<lparr>length_n = n, length_mean = mean, length_M2 = M2\<rparr>, (Y, X, X_sparse)))"

text \<open>
  The generator over a feed: the records of all polled batches in arrival order. The
  network request itself is outside the model.
\<close>

fun get_data :: "(string \<Rightarrow> int) \<Rightarrow> length_stats \<Rightarrow> change list \<Rightarrow> error + observation list" where
  "get_data hash st [] = Inr []"
| "get_data hash st (el # els) =
     (case get_data_step hash st el of
        Inl e \<Rightarrow> Inl e
      | Inr (st', obs) \<Rightarrow>
          (case get_data hash st' els of
             Inl e \<Rightarrow> Inl e
           | Inr rest \<Rightarrow> Inr (obs # rest)))"

subsection \<open>The trainer\<close>

text \<open>
  \<^verbatim>\<open>
  def predict(w, w_sparse, x, x_sparse):
      wTx = 0.
      for i, val in enumerate(x):
          wTx += w[i] * val
      for i in x_sparse:
          wTx += w_sparse[i]  # *1 if i in x_sparse
      try:
          wTx = min(max(wTx, -100.), 100.)
          res = 1./(1. + exp(-wTx))
      except OverflowError:
          print wTx
          raise
      return res
  \<close>
  \<open>dense_dot\<close> is the first loop from position \<open>i\<close> on, \<open>sparse_dot\<close> the second;
  both carry the accumulator \<open>wTx\<close>. \<open>dot_product\<close> is \<open>wTx\<close> as it stands before
  the clipping.
\<close>

fun dense_dot :: "real list \<Rightarrow> nat \<Rightarrow> real list \<Rightarrow> real \<Rightarrow> error + real" where
  "dense_dot w i [] wTx = Inr wTx"
| "dense_dot w i (val # x) wTx =
     (if i < length w then dense_dot w (Suc i) x (wTx + w ! i * val) else Inl IndexError)"

fun sparse_dot :: "real list \<Rightarrow> int list \<Rightarrow> real \<Rightarrow> error + real" where
  "sparse_dot w_sparse [] wTx = Inr wTx"
| "sparse_dot w_sparse (i # x_sparse) wTx =
     (case py_index w_sparse i of
        Inl e \<Rightarrow> Inl e
      | Inr v \<Rightarrow> sparse_dot w_sparse x_sparse (wTx + v))"

definition dot_product :: "real list \<Rightarrow> real list \<Rightarrow> real list \<Rightarrow> int list \<Rightarrow> error + real" where
  "dot_product w w_sparse x x_sparse =
     (case dense_dot w 0 x 0 of
        Inl e \<Rightarrow> Inl e
      | Inr wTx \<Rightarrow> sparse_dot w_sparse x_sparse wTx)"

definition clip :: "real \<Rightarrow> real" where
  "clip wTx = min (max wTx (- 100)) 100"

definition predict :: "real list \<Rightarrow> real list \<Rightarrow> real list \<Rightarrow> int list \<Rightarrow> error + real" where
  "predict w w_sparse x x_sparse =
     (case dot_product w w_sparse x x_sparse of
        Inl e \<Rightarrow> Inl e
      | Inr wTx \<Rightarrow>
          (case py_exp (- clip wTx) of
             Inl e \<Rightarrow> Inl e
           | Inr ex \<Rightarrow> Inr (1 / (1 + ex))))"

text \<open>
  \<^verbatim>\<open>
  def update(alpha, w, w_sparse, x, x_sparse, p, y):
      for i, val in enumerate(x):
          w[i] += (y - p) * alpha * val
      for i in x_sparse:
          w_sparse[i] += (y - p) * alpha
  \<close>
  The lists are mutated in place; the model returns the new lists. An exception
  ends the run, so the half-updated lists are not returned with it.
\<close>

fun update_dense :: "real \<Rightarrow> real list \<Rightarrow> nat \<Rightarrow> real list \<Rightarrow> real \<Rightarrow> real \<Rightarrow> error + real list" where
  "update_dense alpha w i [] p y = Inr w"
| "update_dense alpha w i (val # x) p y =
     (if i < length w
      then update_dense alpha (w[i := w ! i + (y - p) * alpha * val]) (Suc i) x p y
      else Inl IndexError)"

fun update_sparse :: "real \<Rightarrow> real list \<Rightarrow> int list \<Rightarrow> real \<Rightarrow> real \<Rightarrow> error + real list" where
  "update_sparse alpha w_sparse [] p y = Inr w_sparse"
| "update_sparse alpha w_sparse (i # x_sparse) p y =
     (case py_slot w_sparse i of
        Inl e \<Rightarrow> Inl e
      | Inr j \<Rightarrow>
          update_sparse alpha (w_sparse[j := w_sparse ! j + (y - p) * alpha]) x_sparse p y)"

definition update ::
  "real \<Rightarrow> real list \<Rightarrow> real list \<Rightarrow> real list \<Rightarrow> int list \<Rightarrow> real \<Rightarrow> real
     \<Rightarrow> error + (real list \<times> real list)" where
  "update alpha w w_sparse x x_sparse p y =
     (case update_dense alpha w 0 x p y of
        Inl e \<Rightarrow> Inl e
      | Inr w' \<Rightarrow>
          (case update_sparse alpha w_sparse x_sparse p y of
             Inl e \<Rightarrow> Inl e
           | Inr w_sparse' \<Rightarrow> Inr (w', w_sparse')))"

text \<open>
  The trainer's global state:
  \<^verbatim>\<open>
  w = [[0.] * D for k in range(K)]
  w_sparse = [[0.] * D_sparse for k in range(K)]
  predictions = [0.] * K
  alpha = .1
  \<close>
  The comprehensions build one list per label, so no two labels share a list. The
  global \<^verbatim>\<open>alpha\<close> is \<open>alpha0\<close> here, since \<open>alpha\<close> is also the parameter of
  \<^verbatim>\<open>update\<close>.
\<close>

record trainer =
  w :: "real list list"
  w_sparse :: "real list list"
  predictions :: "real list"

definition init_trainer :: trainer where
  "init_trainer =
     \<lparr>w = replicate K (replicate D 0),
      w_sparse = replicate K (replicate D_sparse 0),
      predictions = replicate K 0\<rparr>"

definition alpha0 :: real where
  "alpha0 = 1 / 10"

text \<open>
  The body of \<^verbatim>\<open>for k in range(K):\<close> in the training loop:
  \<^verbatim>\<open>
  p = predict(w[k], w_sparse[k], x, x_sparse)
  predictions[k] = float(p)
  update(alpha, w[k], w_sparse[k], x, x_sparse, p, y[k])
  \<close>
  Each of \<^verbatim>\<open>w[k]\<close>, \<^verbatim>\<open>w_sparse[k]\<close>, \<^verbatim>\<open>predictions[k]\<close> and \<^verbatim>\<open>y[k]\<close> raises
  \<^verbatim>\<open>IndexError\<close> when \<open>k\<close> is beyond the list; the four tests are made together,
  the exception being the same wherever it is raised.
\<close>

definition train_label :: "real \<Rightarrow> observation \<Rightarrow> nat \<Rightarrow> trainer \<Rightarrow> error + trainer" where
  "train_label alpha obs k s =
     (case obs of (y, x, x_sparse) \<Rightarrow>
        if k < length (w s) \<and> k < length (w_sparse s) \<and> k < length (predictions s)
           \<and> k < length y
        then
          (case predict (w s ! k) (w_sparse s ! k) x x_sparse of
             Inl e \<Rightarrow> Inl e
           | Inr p \<Rightarrow>
               (case update alpha (w s ! k) (w_sparse s ! k) x x_sparse p (of_int (y ! k)) of
                  Inl e \<Rightarrow> Inl e
                | Inr (wk, wsk) \<Rightarrow>
                    Inr (s\<lparr>w := (w s)[k := wk],
                           w_sparse := (w_sparse s)[k := wsk],
                           predictions := (predictions s)[k := p]\<rparr>)))
        else Inl IndexError)"

fun train_labels :: "real \<Rightarrow> observation \<Rightarrow> nat list \<Rightarrow> trainer \<Rightarrow> error + trainer" where
  "train_labels alpha obs [] s = Inr s"
| "train_labels alpha obs (k # ks) s =
     (case train_label alpha obs k s of
        Inl e \<Rightarrow> Inl e
      | Inr s' \<Rightarrow> train_labels alpha obs ks s')"

definition train_observation :: "real \<Rightarrow> observation \<Rightarrow> trainer \<Rightarrow> error + trainer" where
  "train_observation alpha obs s = train_labels alpha obs [0..<K] s"

text \<open>
  The training loop over a feed. \<open>expired ctr\<close> stands for the clock test
  \<^verbatim>\<open>(datetime.now() - time0) > training_time\<close> made after the \<open>ctr\<close>-th observation.
  The result is the trainer and \<^verbatim>\<open>ctr\<close>.
\<close>

fun training_loop ::
  "(string \<Rightarrow> int) \<Rightarrow> real \<Rightarrow> (nat \<Rightarrow> bool) \<Rightarrow> length_stats \<Rightarrow> change list \<Rightarrow> trainer \<times> nat
     \<Rightarrow> error + (trainer \<times> nat)" where
  "training_loop hash alpha expired st [] (s, ctr) = Inr (s, ctr)"
| "training_loop hash alpha expired st (el # els) (s, ctr) =
     (case get_data_step hash st el of
        Inl e \<Rightarrow> Inl e
      | Inr (st', obs) \<Rightarrow>
          (case train_observation alpha obs s of
             Inl e \<Rightarrow> Inl e
           | Inr s' \<Rightarrow>
               if expired (ctr + 1) then Inr (s', ctr + 1)
               else training_loop hash alpha expired st' els (s', ctr + 1)))"

subsection \<open>The evaluator\<close>

text \<open>
  \<^verbatim>\<open>itertools.product([0, 1], repeat=3)\<close>: the documented equivalent starts from
  \<^verbatim>\<open>[[]]\<close> and, for each pool, extends every partial tuple by every element of the
  pool: \<^verbatim>\<open>result = [x+[y] for x in result for y in pool]\<close>.
\<close>

fun product_pools :: "'a list list \<Rightarrow> 'a list list \<Rightarrow> 'a list list" where
  "product_pools result [] = result"
| "product_pools result (pool # pools) =
     product_pools (concat (map (\<lambda>x. map (\<lambda>y. x @ [y]) pool) result)) pools"

definition itertools_product :: "'a list \<Rightarrow> nat \<Rightarrow> 'a list list" where
  "itertools_product pool n = product_pools [[]] (replicate n pool)"

text \<open>
  \<^verbatim>\<open>classes = {c: c_i for c_i, c in enumerate(list(itertools.product([0, 1], repeat=3)))}\<close>:
  a dictionary from tuple to position, a later entry replacing an earlier one with the
  same key. A lookup of a missing key raises \<^verbatim>\<open>KeyError\<close>.
\<close>

fun dict_of_enumerate :: "nat \<Rightarrow> 'a list \<Rightarrow> ('a \<rightharpoonup> nat) \<Rightarrow> ('a \<rightharpoonup> nat)" where
  "dict_of_enumerate c_i [] m = m"
| "dict_of_enumerate c_i (c # cs) m = dict_of_enumerate (Suc c_i) cs (m(c \<mapsto> c_i))"

definition classes :: "int list \<rightharpoonup> nat" where
  "classes = dict_of_enumerate 0 (itertools_product [0, 1] 3) Map.empty"

definition classes_lookup :: "int list \<Rightarrow> error + nat" where
  "classes_lookup t = (case classes t of None \<Rightarrow> Inl KeyError | Some c \<Rightarrow> Inr c)"

text \<open>
  \<^verbatim>\<open>confusion_matrix = [[0 for j in range(len(classes))] for i in range(len(classes))]\<close>:
  \<open>len(classes)\<close> is 8; every row is a list of its own.
\<close>

definition confusion_matrix0 :: "int list list" where
  "confusion_matrix0 = replicate 8 (replicate 8 0)"

record evaluation =
  predicted :: "int list"
  confusion_matrix :: "int list list"
  test_ctr :: int

definition init_evaluation :: evaluation where
  "init_evaluation = \<lparr>predicted = [0, 0, 0], confusion_matrix = confusion_matrix0, test_ctr = 0\<rparr>"

definition no_test0 :: int where
  "no_test0 = 10000"

text \<open>
  The body of \<^verbatim>\<open>for k in range(K):\<close> in the evaluation loop:
  \<^verbatim>\<open>
  p = predict(w[k], w_sparse[k], x, x_sparse)
  predicted[k] = 1 if p > .5 else 0
  \<close>
\<close>

definition threshold :: "real \<Rightarrow> int" where
  "threshold p = (if 1 / 2 < p then 1 else 0)"

definition predict_label :: "trainer \<Rightarrow> observation \<Rightarrow> nat \<Rightarrow> int list \<Rightarrow> error + int list" where
  "predict_label s obs k pr =
     (case obs of (y, x, x_sparse) \<Rightarrow>
        if k < length (w s) \<and> k < length (w_sparse s)
        then
          (case predict (w s ! k) (w_sparse s ! k) x x_sparse of
             Inl e \<Rightarrow> Inl e
           | Inr p \<Rightarrow> if k < length pr then Inr (pr[k := threshold p]) else Inl IndexError)
        else Inl IndexError)"

fun predict_labels :: "trainer \<Rightarrow> observation \<Rightarrow> nat list \<Rightarrow> int list \<Rightarrow> error + int list" where
  "predict_labels s obs [] pr = Inr pr"
| "predict_labels s obs (k # ks) pr =
     (case predict_label s obs k pr of
        Inl e \<Rightarrow> Inl e
      | Inr pr' \<Rightarrow> predict_labels s obs ks pr')"

text \<open>
  The rest of one iteration:
  \<^verbatim>\<open>
  i = classes[tuple(y)]
  j = classes[tuple(predicted)]
  confusion_matrix[i][j] += 1
  test_ctr +=1
  \<close>
  \<open>i\<close> and \<open>j\<close> come from the dictionary, so they are never negative.
\<close>

definition increment_cell :: "int list list \<Rightarrow> nat \<Rightarrow> nat \<Rightarrow> error + int list list" where
  "increment_cell cm i j =
     (if i < length cm \<and> j < length (cm ! i)
      then Inr (cm[i := (cm ! i)[j := cm ! i ! j + 1]])
      else Inl IndexError)"

definition evaluate_observation :: "trainer \<Rightarrow> observation \<Rightarrow> evaluation \<Rightarrow> error + evaluation" where
  "evaluate_observation s obs ev =
     (case predict_labels s obs [0..<K] (predicted ev) of
        Inl e \<Rightarrow> Inl e
      | Inr pr \<Rightarrow>
          (case classes_lookup (fst obs) of
             Inl e \<Rightarrow> Inl e
           | Inr i \<Rightarrow>
               (case classes_lookup pr of
                  Inl e \<Rightarrow> Inl e
                | Inr j \<Rightarrow>
                    (case increment_cell (confusion_matrix ev) i j of
                       Inl e \<Rightarrow> Inl e
                     | Inr cm \<Rightarrow>
                         Inr \<lparr>predicted = pr, confusion_matrix = cm,
                              test_ctr = test_ctr ev + 1\<rparr>))))"

text \<open>
  The evaluation loop over a feed; it leaves with \<^verbatim>\<open>break\<close> once
  \<^verbatim>\<open>test_ctr >= no_test\<close>, a test made after the observation has been counted.
\<close>

fun evaluation_loop ::
  "(string \<Rightarrow> int) \<Rightarrow> int \<Rightarrow> trainer \<Rightarrow> length_stats \<Rightarrow> change list \<Rightarrow> evaluation
     \<Rightarrow> error + evaluation" where
  "evaluation_loop hash no_test s st [] ev = Inr ev"
| "evaluation_loop hash no_test s st (el # els) ev =
     (case get_data_step hash st el of
        Inl e \<Rightarrow> Inl e
      | Inr (st', obs) \<Rightarrow>
          (case evaluate_observation s obs ev of
             Inl e \<Rightarrow> Inl e
           | Inr ev' \<Rightarrow>
               if no_test \<le> test_ctr ev' then Inr ev'
               else evaluation_loop hash no_test s st' els ev'))"

subsection \<open>Notions used in the statements\<close>

text \<open>
  The dot product as the specification words it: the dense products, and the sparse
  weight of every \<^emph>\<open>distinct\<close> index of the observation once.
\<close>

definition one_hot_dot :: "real list \<Rightarrow> real list \<Rightarrow> real list \<Rightarrow> int list \<Rightarrow> real" where
  "one_hot_dot wk ws x xs = (\<Sum>j<length x. wk ! j * x ! j) + (\<Sum>i\<in>set xs. ws ! nat i)"

text \<open>A change record with the given old and new size, empty strings and no flag.\<close>

definition sized_change :: "int \<Rightarrow> int \<Rightarrow> change" where
  "sized_change old new =
     \<lparr>oldlen = old, newlen = new, parsedcomment = [], user = [], title = [],
      bot_flag = None, minor_flag = None, new_flag = None\<rparr>"

text \<open>
  Three records whose size changes are \<open>10\<close>, \<open>- 10\<close> and \<open>0\<close>, and the same with the
  second change turned into a growth by 10.
\<close>

definition delta_feed :: "change list" where
  "delta_feed = [sized_change 100 110, sized_change 110 100, sized_change 100 100]"

definition magnitude_feed :: "change list" where
  "magnitude_feed = [sized_change 100 110, sized_change 100 110, sized_change 100 100]"

text \<open>A hash function for concrete runs: the length of the string.\<close>

definition length_hash :: "string \<Rightarrow> int" where
  "length_hash s = int (length s)"

text \<open>The sequence of \<^verbatim>\<open>X[1]\<close> that a new generator yields over a feed.\<close>

definition normalized_lengths :: "(string \<Rightarrow> int) \<Rightarrow> change list \<Rightarrow> error + real list" where
  "normalized_lengths hash els =
     (case get_data hash fresh_stats els of
        Inl e \<Rightarrow> Inl e
      | Inr obs \<Rightarrow> Inr (map (\<lambda>(Y, X, X_sparse). X ! 1) obs))"

text \<open>
  A trainer has the shape of the notebook's when it holds at least \<open>K\<close> labels, each
  with at least \<open>D\<close> dense and \<open>D_sparse\<close> sparse weights.
\<close>

definition shaped :: "trainer \<Rightarrow> bool" where
  "shaped s \<longleftrightarrow>
     K \<le> length (w s) \<and> K \<le> length (w_sparse s) \<and> K \<le> length (predictions s) \<and>
     (\<forall>k<K. D \<le> length (w s ! k) \<and> D_sparse \<le> length (w_sparse s ! k))"

text \<open>
  An observation as the extractor yields it: three label bits, at most \<open>D\<close> dense
  features and sparse indices in \<open>[0, D_sparse)\<close>.
\<close>

definition well_formed :: "observation \<Rightarrow> bool" where
  "well_formed obs \<longleftrightarrow>
     (case obs of (y, x, xs) \<Rightarrow>
        length y = K \<and> (\<forall>b\<in>set y. b = 0 \<or> b = 1) \<and> length x \<le> D \<and>
        (\<forall>i\<in>set xs. 0 \<le> i \<and> i < int D_sparse))"

text \<open>
  The position of a tuple of three bits in the lexicographic order of \<open>{0, 1}\<^sup>3\<close>,
  written out: \<open>(a, b, c)\<close> is the \<open>4a + 2b + c\<close>-th tuple, counted from 0.
\<close>

definition tuple_rank :: "int list \<Rightarrow> nat" where
  "tuple_rank t = nat (4 * t ! 0 + 2 * t ! 1 + t ! 2)"

text \<open>
  The predicted tuple of an observation as the specification words it: for every
  label, bit 1 when the probability that \<^verbatim>\<open>predict\<close> returns for the label's weights
  is above \<open>1 / 2\<close>, else bit 0. (Where \<^verbatim>\<open>predict\<close> raises there is no tuple; the
  statements below use the tuple only where it returns.)
\<close>

definition predicted_tuple :: "trainer \<Rightarrow> observation \<Rightarrow> int list" where
  "predicted_tuple s obs =
     map (\<lambda>k. case predict (w s ! k) (w_sparse s ! k) (fst (snd obs)) (snd (snd obs)) of
                 Inl e \<Rightarrow> 0
               | Inr p \<Rightarrow> if 1 / 2 < p then 1 else 0)
         [0..<K]"

text \<open>The cell of an observation: the rank of its actual and of its predicted tuple.\<close>

definition cell :: "trainer \<Rightarrow> observation \<Rightarrow> nat \<times> nat" where
  "cell s obs = (tuple_rank (fst obs), tuple_rank (predicted_tuple s obs))"

text \<open>A matrix of 8 rows of 8 entries.\<close>

definition is_grid :: "int list list \<Rightarrow> bool" where
  "is_grid cm \<longleftrightarrow> length cm = 8 \<and> (\<forall>i<8. length (cm ! i) = 8)"

text \<open>The sum of all entries of a matrix.\<close>

definition matrix_total :: "int list list \<Rightarrow> int" where
  "matrix_total cm = sum_list (map sum_list cm)"

section \<open>Basic facts\<close>

subsection \<open>The logistic function after clipping\<close>

lemma exp_100_le_DBL_MAX: "exp (100::real) \<le> DBL_MAX"
proof -
  have "exp (100::real) = exp 1 ^ 100"
    using exp_of_nat_mult [of 100 "1::real"] by simp
  also have "\<dots> \<le> 3 ^ 100"
    by (rule power_mono) (simp_all add: exp_le)
  also have "\<dots> \<le> DBL_MAX"
    by (simp add: DBL_MAX_def)
  finally show ?thesis .
qed

lemma clip_bounds: "- 100 \<le> clip z \<and> clip z \<le> 100"
  by (simp add: clip_def)

lemma py_exp_clip: "py_exp (- clip z) = Inr (exp (- clip z))"
proof -
  have "exp (- clip z) \<le> exp 100"
    using clip_bounds [of z] by simp
  then have "\<not> DBL_MAX < exp (- clip z)"
    using exp_100_le_DBL_MAX by linarith
  then show ?thesis
    by (simp add: py_exp_def)
qed

lemma predict_eq:
  "predict wk ws x xs =
     (case dot_product wk ws x xs of Inl e \<Rightarrow> Inl e | Inr d \<Rightarrow> Inr (1 / (1 + exp (- clip d))))"
  by (simp add: predict_def py_exp_clip split: sum.splits)

lemma dense_dot_eq:
  "dense_dot wk i x acc =
     (if x = [] \<or> i + length x \<le> length wk
      then Inr (acc + (\<Sum>j<length x. wk ! (i + j) * x ! j))
      else Inl IndexError)"
proof (induction x arbitrary: i acc)
  case Nil
  then show ?case by simp
next
  case (Cons v x)
  show ?case
  proof (cases "i < length wk")
    case False
    then show ?thesis by simp
  next
    case True
    have s: "(\<Sum>j<Suc (length x). wk ! (i + j) * (v # x) ! j)
           = wk ! i * v + (\<Sum>j<length x. wk ! (Suc i + j) * x ! j)"
      by (subst sum.lessThan_Suc_shift) simp
    show ?thesis
      using True by (auto simp: Cons.IH s simp del: sum.lessThan_Suc)
  qed
qed

lemma py_slot_in_range: "0 \<le> i \<Longrightarrow> i < int (length xs) \<Longrightarrow> py_slot xs i = Inr (nat i)"
  by (simp add: py_slot_def)

lemma py_index_in_range: "0 \<le> i \<Longrightarrow> i < int (length xs) \<Longrightarrow> py_index xs i = Inr (xs ! nat i)"
  by (simp add: py_index_def py_slot_in_range)

lemma sparse_dot_eq:
  "\<forall>i\<in>set xs. 0 \<le> i \<and> i < int (length ws) \<Longrightarrow>
   sparse_dot ws xs acc = Inr (acc + (\<Sum>i\<leftarrow>xs. ws ! nat i))"
  by (induction xs arbitrary: acc) (simp_all add: py_index_in_range)

lemma dot_product_eq:
  assumes "length x \<le> length wk" and "\<forall>i\<in>set xs. 0 \<le> i \<and> i < int (length ws)"
  shows "dot_product wk ws x xs = Inr ((\<Sum>j<length x. wk ! j * x ! j) + (\<Sum>i\<leftarrow>xs. ws ! nat i))"
  using assms by (simp add: dot_product_def dense_dot_eq sparse_dot_eq)


text \<open>
  In exact arithmetic \<^verbatim>\<open>predict\<close> is the logistic function of the clipped dot product,
  and \<^verbatim>\<open>math.exp\<close> is never called on an argument above 100, so the
  \<^verbatim>\<open>except OverflowError\<close> branch is never entered. Rounding is outside this model:
  in binary64 \<open>1 + exp (- 100)\<close> is no longer different from 1.
\<close>

lemma dense_dot_error: "dense_dot wk i x acc = Inl e \<Longrightarrow> e = IndexError"
  by (simp add: dense_dot_eq split: if_splits)

lemma sparse_dot_error: "sparse_dot ws xs acc = Inl e \<Longrightarrow> e = IndexError"
  by (induction xs arbitrary: acc)
     (auto simp: py_index_def py_slot_def Let_def split: sum.splits if_splits)

lemma predict_never_overflows: "predict wk ws x xs \<noteq> Inl OverflowError"
  by (auto simp: predict_eq dot_product_def split: sum.splits
      dest: dense_dot_error sparse_dot_error)

lemma predict_saturates:
  assumes "dot_product wk ws x xs = Inr d"
  shows "predict wk ws x xs = Inr (1 / (1 + exp (- clip d)))"
    and "d \<le> - 100 \<Longrightarrow> predict wk ws x xs = Inr (1 / (1 + exp 100))"
    and "100 \<le> d \<Longrightarrow> predict wk ws x xs = Inr (1 / (1 + exp (- 100)))"
  using assms by (simp_all add: predict_eq clip_def)

subsection \<open>One call of update\<close>

lemma update_dense_eq:
  "update_dense alpha wk i x p y =
     (if x = [] \<or> i + length x \<le> length wk
      then Inr (map (\<lambda>j. if i \<le> j \<and> j < i + length x
                           then wk ! j + (y - p) * alpha * x ! (j - i) else wk ! j)
                    [0..<length wk])
      else Inl IndexError)"
proof (induction x arbitrary: i wk)
  case Nil
  show ?case by (auto intro: nth_equalityI)
next
  case (Cons v x)
  show ?case
  proof (cases "i < length wk")
    case False
    then show ?thesis by simp
  next
    case True
    show ?thesis
    proof (cases "Suc i + length x \<le> length wk")
      case False
      then show ?thesis using True by (auto simp: Cons.IH)
    next
      case le: True
      have "map (\<lambda>j. if Suc i \<le> j \<and> j < Suc i + length x
                   then (wk[i := wk ! i + (y - p) * alpha * v]) ! j + (y - p) * alpha * x ! (j - Suc i)
                   else (wk[i := wk ! i + (y - p) * alpha * v]) ! j) [0..<length wk]
          = map (\<lambda>j. if i \<le> j \<and> j < i + length (v # x)
                   then wk ! j + (y - p) * alpha * (v # x) ! (j - i) else wk ! j) [0..<length wk]"
      proof (rule map_cong)
        fix j assume "j \<in> set [0..<length wk]"
        then have "j < length wk" by simp
        then show "(if Suc i \<le> j \<and> j < Suc i + length x
                   then (wk[i := wk ! i + (y - p) * alpha * v]) ! j + (y - p) * alpha * x ! (j - Suc i)
                   else (wk[i := wk ! i + (y - p) * alpha * v]) ! j)
          = (if i \<le> j \<and> j < i + length (v # x)
                   then wk ! j + (y - p) * alpha * (v # x) ! (j - i) else wk ! j)"
          by (cases "j = i") (auto simp: nth_Cons' Suc_diff_Suc)
      qed simp
      then show ?thesis
        using True le by (simp add: Cons.IH)
    qed
  qed
qed

lemma update_sparse_eq:
  "\<forall>i\<in>set xs. 0 \<le> i \<and> i < int (length ws) \<Longrightarrow>
   update_sparse alpha ws xs p y =
     Inr (map (\<lambda>j. ws ! j + of_nat (count_list xs (int j)) * ((y - p) * alpha)) [0..<length ws])"
proof (induction xs arbitrary: ws)
  case Nil
  show ?case by (simp add: map_nth)
next
  case (Cons i xs)
  let ?ws = "ws[nat i := ws ! nat i + (y - p) * alpha]"
  have i: "0 \<le> i" "i < int (length ws)" using Cons.prems by auto
  have "\<forall>i\<in>set xs. 0 \<le> i \<and> i < int (length ?ws)" using Cons.prems by simp
  then have "update_sparse alpha ?ws xs p y =
     Inr (map (\<lambda>j. ?ws ! j + of_nat (count_list xs (int j)) * ((y - p) * alpha)) [0..<length ?ws])"
    by (rule Cons.IH)
  moreover have "map (\<lambda>j. ?ws ! j + of_nat (count_list xs (int j)) * ((y - p) * alpha)) [0..<length ?ws]
     = map (\<lambda>j. ws ! j + of_nat (count_list (i # xs) (int j)) * ((y - p) * alpha)) [0..<length ws]"
    using i by (auto simp: nth_list_update algebra_simps)
  ultimately show ?case
    using i by (simp add: py_slot_in_range)
qed

subsection \<open>The extractor never raises from new statistics\<close>

lemma welford_increment_nonneg:
  fixes len mean :: real and n1 :: int
  assumes "2 \<le> n1"
  shows "0 \<le> (len - mean) * (len - (mean + (len - mean) / of_int n1))"
proof -
  have n: "(0::real) < of_int n1" using assms by simp
  have "len - (mean + (len - mean) / of_int n1) = (len - mean) * (1 - 1 / of_int n1)"
    by (simp add: algebra_simps)
  then have "(len - mean) * (len - (mean + (len - mean) / of_int n1))
           = (len - mean)\<^sup>2 * (1 - 1 / of_int n1)"
    by (simp add: power2_eq_square)
  moreover have "(0::real) \<le> 1 - 1 / of_int n1"
    using assms by simp
  ultimately show ?thesis by simp
qed

lemma get_length_statistics_ok:
  assumes "1 \<le> n" and "0 \<le> M2"
  shows "\<exists>mean1 std M21. get_length_statistics len n mean M2 = Inr (mean1, std, M21)
            \<and> 0 \<le> M21 \<and> 0 \<le> std"
proof -
  let ?n1 = "n + 1"
  let ?mean1 = "mean + (len - mean) / of_int ?n1"
  let ?M21 = "M2 + (len - mean) * (len - ?mean1)"
  have n1: "2 \<le> ?n1" using assms by simp
  have M21: "0 \<le> ?M21"
    using welford_increment_nonneg [OF n1, of len mean] assms(2) by linarith
  have "0 \<le> ?M21 / of_int (?n1 - 1)"
    using M21 assms(1) by simp
  then have "py_sqrt (?M21 / of_int (?n1 - 1)) = Inr (sqrt (?M21 / of_int (?n1 - 1)))"
    by (simp add: py_sqrt_def)
  then have "get_length_statistics len n mean M2
              = Inr (?mean1, sqrt (?M21 / of_int (?n1 - 1)), ?M21)"
    using assms(1) by (simp add: get_length_statistics_def Let_def)
  moreover have "0 \<le> sqrt (?M21 / of_int (?n1 - 1))"
    using \<open>0 \<le> ?M21 / of_int (?n1 - 1)\<close> by simp
  ultimately show ?thesis using M21 by blast
qed

lemma sparse_index_range:
  "0 \<le> sparse_index hash tag s \<and> sparse_index hash tag s < int D_sparse"
  by (simp add: sparse_index_def D_sparse_def)

lemma flag_value_bit: "flag_value f = 0 \<or> flag_value f = 1"
  by (simp add: flag_value_def)

lemma get_data_step_ok:
  assumes "0 \<le> length_n st" and "0 \<le> length_M2 st"
  shows "\<exists>st' f. get_data_step hash st el =
            Inr (st', ([flag_value (bot_flag el), flag_value (minor_flag el), flag_value (new_flag el)],
                       [1, f],
                       [sparse_index hash ''comment_'' (parsedcomment el),
                        sparse_index hash ''username_'' (user el),
                        sparse_index hash ''title_'' (title el)]))
          \<and> length_n st' = length_n st + 1 \<and> 0 \<le> length_M2 st'"
proof -
  have "1 \<le> length_n st + 1" using assms(1) by simp
  from get_length_statistics_ok [OF this assms(2)]
  obtain mean1 std M21 where
    g: "get_length_statistics (of_int \<bar>newlen el - oldlen el\<bar>) (length_n st + 1)
          (length_mean st) (length_M2 st) = Inr (mean1, std, M21)"
    and M21: "0 \<le> M21"
    by blast
  show ?thesis
    unfolding get_data_step_def Let_def g using M21 by simp
qed


lemma sqrt_50_gt_5: "5 < sqrt (50::real)"
  by (rule real_less_rsqrt) simp

subsection \<open>The extractor on the three-record feeds\<close>

lemmas extractor_defs = get_data_step_def get_length_statistics_def py_sqrt_def fresh_stats_def
      sized_change_def flag_value_def Let_def normalized_lengths_def delta_feed_def magnitude_feed_def

lemma sqrt_pos_100_3: "0 < sqrt (100 / 3 :: real)"
  by simp

lemma delta_feed_run:
  "normalized_lengths hash delta_feed
     = Inr [5 / sqrt 50, (10 / 3) / sqrt (100 / 3), - 5 / sqrt (100 / 3)]"
  by (simp add: extractor_defs)

lemma magnitude_feed_run:
  "normalized_lengths hash magnitude_feed
     = Inr [5 / sqrt 50, (10 / 3) / sqrt (100 / 3), - 5 / sqrt (100 / 3)]"
  by (simp add: extractor_defs)

subsection \<open>Predicting, updating and training on well-shaped weights\<close>

lemma predict_ok:
  assumes "length x \<le> length wk" and "\<forall>i\<in>set xs. 0 \<le> i \<and> i < int (length ws)"
  shows "predict wk ws x xs
           = Inr (1 / (1 + exp (- clip ((\<Sum>j<length x. wk ! j * x ! j) + (\<Sum>i\<leftarrow>xs. ws ! nat i)))))"
  using assms by (simp add: predict_eq dot_product_eq)

lemma predict_zero_weights:
  assumes "length x \<le> length wk" and "\<forall>i\<in>set xs. 0 \<le> i \<and> i < int (length ws)"
    and "\<forall>v\<in>set wk. v = 0" and "\<forall>v\<in>set ws. v = 0"
  shows "predict wk ws x xs = Inr (1 / 2)"
proof -
  have "wk ! j * x ! j = 0" if "j < length x" for j
    using that assms(1,3) by simp
  then have dense: "(\<Sum>j<length x. wk ! j * x ! j) = 0"
    by (intro sum.neutral) simp
  have "ws ! nat i = 0" if "i \<in> set xs" for i
    using that assms(2,4) by (simp add: nat_less_iff)
  then have "\<forall>i\<in>set xs. ws ! nat i = 0"
    by simp
  then have sparse: "(\<Sum>i\<leftarrow>xs. ws ! nat i) = 0"
    by (induction xs) simp_all
  show ?thesis
    using assms(1,2) by (simp add: predict_ok dense sparse clip_def)
qed

lemma update_shape:
  assumes "length x \<le> length wk" and "\<forall>i\<in>set xs. 0 \<le> i \<and> i < int (length ws)"
  shows "\<exists>wk' ws'. update alpha wk ws x xs p y = Inr (wk', ws')
           \<and> length wk' = length wk \<and> length ws' = length ws"
  using assms by (simp add: update_def update_dense_eq update_sparse_eq)

lemma update_dense_zero_rate:
  "update_dense 0 wk i x p y = Inr wk' \<Longrightarrow> wk' = wk"
  by (induction x arbitrary: i) (auto split: if_splits)

lemma update_sparse_zero_rate:
  "update_sparse 0 ws xs p y = Inr ws' \<Longrightarrow> ws' = ws"
  by (induction xs) (auto split: sum.splits)

lemma update_zero_rate:
  "update 0 wk ws x xs p y = Inr (wk', ws') \<Longrightarrow> wk' = wk \<and> ws' = ws"
  by (auto simp: update_def split: sum.splits dest: update_dense_zero_rate update_sparse_zero_rate)

lemma train_label_zero_rate:
  "train_label 0 obs k s = Inr s' \<Longrightarrow> w s' = w s \<and> w_sparse s' = w_sparse s"
  by (auto simp: train_label_def split: prod.splits if_splits sum.splits dest!: update_zero_rate)

lemma train_labels_zero_rate:
  "train_labels 0 obs ks s = Inr s' \<Longrightarrow> w s' = w s \<and> w_sparse s' = w_sparse s"
proof (induction ks arbitrary: s)
  case Nil
  then show ?case by simp
next
  case (Cons k ks)
  then show ?case
    by (auto split: sum.splits dest!: train_label_zero_rate)
qed

lemma training_loop_zero_rate:
  "training_loop hash 0 expired st els (s, ctr) = Inr (s', ctr')
     \<Longrightarrow> w s' = w s \<and> w_sparse s' = w_sparse s"
proof (induction els arbitrary: st s ctr)
  case Nil
  then show ?case by simp
next
  case (Cons el els)
  from Cons.prems obtain st1 obs s1 where
    s1: "train_observation 0 obs s = Inr s1"
    and rest: "(expired (ctr + 1) \<and> s' = s1)
               \<or> training_loop hash 0 expired st1 els (s1, ctr + 1) = Inr (s', ctr')"
    by (auto split: sum.splits prod.splits if_splits)
  from s1 have "w s1 = w s \<and> w_sparse s1 = w_sparse s"
    by (auto simp: train_observation_def dest: train_labels_zero_rate)
  with rest Cons.IH show ?case
    by fastforce
qed

lemma train_label_ok:
  assumes sh: "shaped s" and k: "k < K" and x: "length x \<le> D"
    and xs: "\<forall>i\<in>set xs. 0 \<le> i \<and> i < int D_sparse" and y: "K \<le> length y"
  shows "\<exists>p wk' ws'. predict (w s ! k) (w_sparse s ! k) x xs = Inr p
           \<and> update alpha (w s ! k) (w_sparse s ! k) x xs p (of_int (y ! k)) = Inr (wk', ws')
           \<and> length wk' = length (w s ! k) \<and> length ws' = length (w_sparse s ! k)
           \<and> train_label alpha (y, x, xs) k s
               = Inr (s\<lparr>w := (w s)[k := wk'], w_sparse := (w_sparse s)[k := ws'],
                        predictions := (predictions s)[k := p]\<rparr>)"
proof -
  have len: "k < length (w s)" "k < length (w_sparse s)" "k < length (predictions s)"
    "k < length y"
    using sh k y by (simp_all add: shaped_def)
  have fit: "length x \<le> length (w s ! k)"
    "\<forall>i\<in>set xs. 0 \<le> i \<and> i < int (length (w_sparse s ! k))"
    using sh k x xs by (fastforce simp: shaped_def)+
  obtain p where p: "predict (w s ! k) (w_sparse s ! k) x xs = Inr p"
    using predict_ok [OF fit] by blast
  obtain wk' ws' where
    u: "update alpha (w s ! k) (w_sparse s ! k) x xs p (of_int (y ! k)) = Inr (wk', ws')"
    and l: "length wk' = length (w s ! k)" "length ws' = length (w_sparse s ! k)"
    using update_shape [OF fit] by blast
  have "train_label alpha (y, x, xs) k s
               = Inr (s\<lparr>w := (w s)[k := wk'], w_sparse := (w_sparse s)[k := ws'],
                        predictions := (predictions s)[k := p]\<rparr>)"
    using len by (simp add: train_label_def p u)
  with p u l show ?thesis by blast
qed

lemma shaped_update:
  assumes "shaped s" and "length wk' = length (w s ! k)" and "length ws' = length (w_sparse s ! k)"
  shows "shaped (s\<lparr>w := (w s)[k := wk'], w_sparse := (w_sparse s)[k := ws'],
                   predictions := (predictions s)[k := p]\<rparr>)"
proof -
  have "D \<le> length ((w s)[k := wk'] ! j) \<and> D_sparse \<le> length ((w_sparse s)[k := ws'] ! j)"
    if "j < K" for j
  proof (cases "j = k")
    case True
    then show ?thesis
      using that assms by (simp add: shaped_def)
  next
    case False
    then show ?thesis
      using that assms(1) by (simp add: shaped_def)
  qed
  then show ?thesis
    using assms(1) by (simp add: shaped_def)
qed

lemma train_labels_ok:
  assumes "distinct ks" and "\<forall>k\<in>set ks. k < K" and "shaped s" and "length x \<le> D"
    and "\<forall>i\<in>set xs. 0 \<le> i \<and> i < int D_sparse" and "K \<le> length y"
  shows "\<exists>s'. train_labels alpha (y, x, xs) ks s = Inr s' \<and> shaped s'
           \<and> length (w s') = length (w s) \<and> length (w_sparse s') = length (w_sparse s)
           \<and> (\<forall>k\<in>set ks. \<exists>p. predict (w s ! k) (w_sparse s ! k) x xs = Inr p
                  \<and> update alpha (w s ! k) (w_sparse s ! k) x xs p (of_int (y ! k))
                      = Inr (w s' ! k, w_sparse s' ! k)
                  \<and> predictions s' ! k = p)
           \<and> (\<forall>j. j \<notin> set ks \<longrightarrow> w s' ! j = w s ! j \<and> w_sparse s' ! j = w_sparse s ! j
                  \<and> predictions s' ! j = predictions s ! j)"
  using assms
proof (induction ks arbitrary: s)
  case Nil
  then show ?case by simp
next
  case (Cons k ks)
  have k: "k < K" "k \<notin> set ks" using Cons.prems(1,2) by simp_all
  from train_label_ok [OF Cons.prems(3) k(1) Cons.prems(4,5,6), of alpha]
  obtain p wk' ws' where
    p: "predict (w s ! k) (w_sparse s ! k) x xs = Inr p"
    and u: "update alpha (w s ! k) (w_sparse s ! k) x xs p (of_int (y ! k)) = Inr (wk', ws')"
    and l: "length wk' = length (w s ! k)" "length ws' = length (w_sparse s ! k)"
    and t: "train_label alpha (y, x, xs) k s
               = Inr (s\<lparr>w := (w s)[k := wk'], w_sparse := (w_sparse s)[k := ws'],
                        predictions := (predictions s)[k := p]\<rparr>)"
    by blast
  let ?s1 = "s\<lparr>w := (w s)[k := wk'], w_sparse := (w_sparse s)[k := ws'],
                        predictions := (predictions s)[k := p]\<rparr>"
  have sh1: "shaped ?s1"
    using Cons.prems(3) l by (rule shaped_update)
  have kl: "k < length (w s)" "k < length (w_sparse s)" "k < length (predictions s)"
    using Cons.prems(3) k(1) by (simp_all add: shaped_def)
  from Cons.IH [OF _ _ sh1 Cons.prems(4,5,6)] Cons.prems(1,2)
  obtain s' where
    r: "train_labels alpha (y, x, xs) ks ?s1 = Inr s'" and sh': "shaped s'"
    and len: "length (w s') = length (w ?s1)" "length (w_sparse s') = length (w_sparse ?s1)"
    and own: "\<forall>k'\<in>set ks. \<exists>q. predict (w ?s1 ! k') (w_sparse ?s1 ! k') x xs = Inr q
                  \<and> update alpha (w ?s1 ! k') (w_sparse ?s1 ! k') x xs q (of_int (y ! k'))
                      = Inr (w s' ! k', w_sparse s' ! k')
                  \<and> predictions s' ! k' = q"
    and frame: "\<forall>j. j \<notin> set ks \<longrightarrow> w s' ! j = w ?s1 ! j \<and> w_sparse s' ! j = w_sparse ?s1 ! j
                  \<and> predictions s' ! j = predictions ?s1 ! j"
    by auto
  have run: "train_labels alpha (y, x, xs) (k # ks) s = Inr s'"
    by (simp add: t r)
  have same: "w ?s1 ! k' = w s ! k' \<and> w_sparse ?s1 ! k' = w_sparse s ! k'" if "k' \<noteq> k" for k'
    using that by simp
  have at_k: "w s' ! k = wk'" "w_sparse s' ! k = ws'"
    using frame k(2) kl by simp_all
  have tail: "\<exists>q. predict (w s ! k') (w_sparse s ! k') x xs = Inr q
                  \<and> update alpha (w s ! k') (w_sparse s ! k') x xs q (of_int (y ! k'))
                      = Inr (w s' ! k', w_sparse s' ! k')
                  \<and> predictions s' ! k' = q" if "k' \<in> set ks" for k'
  proof -
    have "k' \<noteq> k" using that k(2) by blast
    with own that same [of k'] show ?thesis by auto
  qed
  have pk: "predictions s' ! k = p"
    using frame k(2) kl by simp
  have others: "w s' ! j = w s ! j \<and> w_sparse s' ! j = w_sparse s ! j
                  \<and> predictions s' ! j = predictions s ! j" if "j \<notin> set (k # ks)" for j
    using that frame by simp
  have head: "\<exists>q. predict (w s ! k) (w_sparse s ! k) x xs = Inr q
                  \<and> update alpha (w s ! k) (w_sparse s ! k) x xs q (of_int (y ! k))
                      = Inr (w s' ! k, w_sparse s' ! k)
                  \<and> predictions s' ! k = q"
    using p u at_k pk by simp
  have "length (w s') = length (w s)" "length (w_sparse s') = length (w_sparse s)"
    using len by simp_all
  with run sh' head tail others show ?case
    by (intro exI [of _ s']) (simp del: train_labels.simps)
qed

lemma train_observation_ok:
  assumes "shaped s" and "length x \<le> D"
    and "\<forall>i\<in>set xs. 0 \<le> i \<and> i < int D_sparse" and "K \<le> length y"
  shows "\<exists>s'. train_observation alpha (y, x, xs) s = Inr s' \<and> shaped s'
           \<and> (\<forall>k<K. \<exists>p. predict (w s ! k) (w_sparse s ! k) x xs = Inr p
                  \<and> update alpha (w s ! k) (w_sparse s ! k) x xs p (of_int (y ! k))
                      = Inr (w s' ! k, w_sparse s' ! k))"
proof -
  have "distinct [0..<K]" and "\<forall>k\<in>set [0..<K]. k < K"
    by simp_all
  from train_labels_ok [OF this assms, of alpha]
  show ?thesis
    unfolding train_observation_def by fastforce
qed

lemma shaped_init_trainer: "shaped init_trainer"
  by (simp add: shaped_def init_trainer_def)

lemma training_loop_ok:
  assumes "shaped s" and "0 \<le> length_n st" and "0 \<le> length_M2 st"
  shows "\<exists>s' ctr'. training_loop hash alpha expired st els (s, ctr) = Inr (s', ctr') \<and> shaped s'"
  using assms
proof (induction els arbitrary: st s ctr)
  case Nil
  then show ?case by simp
next
  case (Cons el els)
  from get_data_step_ok [OF Cons.prems(2,3), of hash el]
  obtain st1 f where
    g: "get_data_step hash st el =
            Inr (st1, ([flag_value (bot_flag el), flag_value (minor_flag el), flag_value (new_flag el)],
                       [1, f],
                       [sparse_index hash ''comment_'' (parsedcomment el),
                        sparse_index hash ''username_'' (user el),
                        sparse_index hash ''title_'' (title el)]))"
    and st1: "0 \<le> length_n st1" "0 \<le> length_M2 st1"
    using Cons.prems(2) by auto
  let ?obs = "([flag_value (bot_flag el), flag_value (minor_flag el), flag_value (new_flag el)],
                       [1, f],
                       [sparse_index hash ''comment_'' (parsedcomment el),
                        sparse_index hash ''username_'' (user el),
                        sparse_index hash ''title_'' (title el)])"
  have "length [1, f] \<le> D" by (simp add: D_def)
  moreover have "\<forall>i\<in>set [sparse_index hash ''comment_'' (parsedcomment el),
                        sparse_index hash ''username_'' (user el),
                        sparse_index hash ''title_'' (title el)]. 0 \<le> i \<and> i < int D_sparse"
    by (simp add: sparse_index_range)
  moreover have "K \<le> length [flag_value (bot_flag el), flag_value (minor_flag el), flag_value (new_flag el)]"
    by (simp add: K_def)
  ultimately obtain s1 where
    t: "train_observation alpha ?obs s = Inr s1" and sh1: "shaped s1"
    using train_observation_ok [OF Cons.prems(1), of "[1, f]" _ _ alpha] by blast
  from Cons.IH [OF sh1 st1, of "ctr + 1"]
  show ?case
    by (auto simp: g t sh1)
qed

lemma update_zero_rate_ok:
  assumes "length x \<le> length wk" and "\<forall>i\<in>set xs. 0 \<le> i \<and> i < int (length ws)"
  shows "update 0 wk ws x xs p y = Inr (wk, ws)"
proof -
  obtain wk' ws' where u: "update 0 wk ws x xs p y = Inr (wk', ws')"
    using update_shape [OF assms] by blast
  then have "wk' = wk \<and> ws' = ws"
    by (rule update_zero_rate)
  with u show ?thesis by simp
qed

lemma predict_label_eq:
  "predict_label s (y, x, xs) k pr = Inr pr' \<Longrightarrow>
     \<exists>q. predict (w s ! k) (w_sparse s ! k) x xs = Inr q
          \<and> k < length pr \<and> pr' = pr[k := (if 1 / 2 < q then 1 else 0)]"
  by (auto simp: predict_label_def threshold_def split: if_splits sum.splits)

lemma predict_label_zero_weights:
  assumes "shaped s" and "k < K"
    and "\<forall>k<K. (\<forall>v\<in>set (w s ! k). v = 0) \<and> (\<forall>v\<in>set (w_sparse s ! k). v = 0)"
    and "length x \<le> D" and "\<forall>i\<in>set xs. 0 \<le> i \<and> i < int D_sparse" and "k < length pr"
  shows "predict_label s (y, x, xs) k pr = Inr (pr[k := 0])"
proof -
  have fit: "length x \<le> length (w s ! k)"
    "\<forall>i\<in>set xs. 0 \<le> i \<and> i < int (length (w_sparse s ! k))"
    using assms(1,2,4,5) by (fastforce simp: shaped_def)+
  have "predict (w s ! k) (w_sparse s ! k) x xs = Inr (1 / 2)"
    using fit assms(2,3) by (intro predict_zero_weights) simp_all
  moreover have "k < length (w s)" "k < length (w_sparse s)"
    using assms(1,2) by (simp_all add: shaped_def)
  ultimately show ?thesis
    using assms(6) by (simp add: predict_label_def threshold_def)
qed

lemma upt_K: "[0..<K] = [0, 1, 2]"
  by (simp add: K_def upt_rec)

subsection \<open>The evaluator on well-shaped weights\<close>

lemma itertools_product_bits:
  "itertools_product [0, 1 :: int] 3
     = [[0, 0, 0], [0, 0, 1], [0, 1, 0], [0, 1, 1], [1, 0, 0], [1, 0, 1], [1, 1, 0], [1, 1, 1]]"
  by (simp add: itertools_product_def numeral_3_eq_3)

lemma classes_bits:
  assumes "a = 0 \<or> a = 1" and "b = 0 \<or> b = 1" and "c = 0 \<or> c = 1"
  shows "classes [a, b, c] = Some (nat (4 * a + 2 * b + c))"
  using assms by (auto simp: classes_def itertools_product_bits)

lemma classes_lookup_bits:
  assumes "a = 0 \<or> a = 1" and "b = 0 \<or> b = 1" and "c = 0 \<or> c = 1"
  shows "classes_lookup [a, b, c] = Inr (nat (4 * a + 2 * b + c)) \<and> nat (4 * a + 2 * b + c) < 8"
  using assms by (auto simp: classes_lookup_def classes_bits)

lemma sum_list_update_int:
  fixes xs :: "int list"
  shows "k < length xs \<Longrightarrow> sum_list (xs[k := v]) = sum_list xs - xs ! k + v"
proof (induction xs arbitrary: k)
  case Nil
  then show ?case by simp
next
  case (Cons a xs)
  then show ?case by (cases k) simp_all
qed

lemma matrix_total_increment:
  assumes "i < length cm" and "j < length (cm ! i)"
  shows "matrix_total (cm[i := (cm ! i)[j := cm ! i ! j + 1]]) = matrix_total cm + 1"
proof -
  have "map sum_list (cm[i := (cm ! i)[j := cm ! i ! j + 1]])
          = (map sum_list cm)[i := sum_list ((cm ! i)[j := cm ! i ! j + 1])]"
    by (rule map_update)
  moreover have "sum_list ((cm ! i)[j := cm ! i ! j + 1]) = sum_list (cm ! i) + 1"
    using assms(2) by (simp add: sum_list_update_int)
  ultimately show ?thesis
    using assms(1) by (simp add: matrix_total_def sum_list_update_int)
qed

lemma is_grid_increment:
  assumes "is_grid cm"
  shows "is_grid (cm[i := (cm ! i)[j := v]])"
proof -
  have "length ((cm[i := (cm ! i)[j := v]]) ! k) = 8" if "k < 8" for k
    using that assms by (cases "k = i") (simp_all add: is_grid_def)
  then show ?thesis
    using assms by (simp add: is_grid_def)
qed

lemma threshold_bit: "threshold p = 0 \<or> threshold p = 1"
  by (simp add: threshold_def)

lemma predict_label_ok:
  assumes "shaped s" and "k < K" and "length x \<le> D"
    and "\<forall>i\<in>set xs. 0 \<le> i \<and> i < int D_sparse" and "k < length pr"
  shows "\<exists>t. (t = 0 \<or> t = 1) \<and> predict_label s (y, x, xs) k pr = Inr (pr[k := t])"
proof -
  have fit: "length x \<le> length (w s ! k)"
    "\<forall>i\<in>set xs. 0 \<le> i \<and> i < int (length (w_sparse s ! k))"
    using assms(1,2,3,4) by (fastforce simp: shaped_def)+
  obtain p where p: "predict (w s ! k) (w_sparse s ! k) x xs = Inr p"
    using predict_ok [OF fit] by blast
  have "k < length (w s)" "k < length (w_sparse s)"
    using assms(1,2) by (simp_all add: shaped_def)
  then have "predict_label s (y, x, xs) k pr = Inr (pr[k := threshold p])"
    using assms(5) by (simp add: predict_label_def p)
  with threshold_bit [of p] show ?thesis by blast
qed

lemma predict_labels_ok:
  assumes "shaped s" and "length x \<le> D"
    and "\<forall>i\<in>set xs. 0 \<le> i \<and> i < int D_sparse" and "length pr = K"
  shows "\<exists>t0 t1 t2. (t0 = 0 \<or> t0 = 1) \<and> (t1 = 0 \<or> t1 = 1) \<and> (t2 = 0 \<or> t2 = 1)
           \<and> predict_labels s (y, x, xs) [0..<K] pr = Inr [t0, t1, t2]"
proof -
  obtain a0 a1 a2 where pr: "pr = [a0, a1, a2]"
    using assms(4) by (auto simp: K_def numeral_3_eq_3 length_Suc_conv)
  obtain t0 where t0: "t0 = 0 \<or> t0 = 1"
    "predict_label s (y, x, xs) 0 [a0, a1, a2] = Inr [t0, a1, a2]"
    using predict_label_ok [OF assms(1) _ assms(2,3), of 0 "[a0, a1, a2]" y]
    by (auto simp: K_def)
  obtain t1 where t1: "t1 = 0 \<or> t1 = 1"
    "predict_label s (y, x, xs) 1 [t0, a1, a2] = Inr [t0, t1, a2]"
    using predict_label_ok [OF assms(1) _ assms(2,3), of 1 "[t0, a1, a2]" y]
    by (auto simp: K_def)
  obtain t2 where t2: "t2 = 0 \<or> t2 = 1"
    "predict_label s (y, x, xs) 2 [t0, t1, a2] = Inr [t0, t1, t2]"
    using predict_label_ok [OF assms(1) _ assms(2,3), of 2 "[t0, t1, a2]" y]
    by (auto simp: K_def)
  have "predict_labels s (y, x, xs) [0..<K] pr = Inr [t0, t1, t2]"
    using t0(2) t1(2) t2(2) by (simp add: upt_K pr)
  with t0(1) t1(1) t2(1) show ?thesis by blast
qed

lemma evaluate_observation_ok:
  assumes "shaped s" and "length x \<le> D" and "\<forall>i\<in>set xs. 0 \<le> i \<and> i < int D_sparse"
    and "b0 = 0 \<or> b0 = 1" and "b1 = 0 \<or> b1 = 1" and "b2 = 0 \<or> b2 = 1"
    and "is_grid (confusion_matrix ev)" and "length (predicted ev) = K"
  shows "\<exists>ev'. evaluate_observation s ([b0, b1, b2], x, xs) ev = Inr ev'
           \<and> is_grid (confusion_matrix ev') \<and> length (predicted ev') = K
           \<and> test_ctr ev' = test_ctr ev + 1
           \<and> matrix_total (confusion_matrix ev') = matrix_total (confusion_matrix ev) + 1"
proof -
  from predict_labels_ok [OF assms(1,2,3,8), of "[b0, b1, b2]"]
  obtain t0 t1 t2 where t: "t0 = 0 \<or> t0 = 1" "t1 = 0 \<or> t1 = 1" "t2 = 0 \<or> t2 = 1"
    and pl: "predict_labels s ([b0, b1, b2], x, xs) [0..<K] (predicted ev) = Inr [t0, t1, t2]"
    by blast
  let ?i = "nat (4 * b0 + 2 * b1 + b2)"
  let ?j = "nat (4 * t0 + 2 * t1 + t2)"
  let ?cm = "confusion_matrix ev"
  have i: "classes_lookup [b0, b1, b2] = Inr ?i" "?i < 8"
    using classes_lookup_bits [OF assms(4,5,6)] by simp_all
  have j: "classes_lookup [t0, t1, t2] = Inr ?j" "?j < 8"
    using classes_lookup_bits [OF t] by simp_all
  have inside: "?i < length ?cm" "?j < length (?cm ! ?i)"
    using assms(7) i(2) j(2) by (simp_all add: is_grid_def)
  then have inc: "increment_cell ?cm ?i ?j = Inr (?cm[?i := (?cm ! ?i)[?j := ?cm ! ?i ! ?j + 1]])"
    by (simp add: increment_cell_def)
  have "evaluate_observation s ([b0, b1, b2], x, xs) ev
          = Inr \<lparr>predicted = [t0, t1, t2],
                 confusion_matrix = ?cm[?i := (?cm ! ?i)[?j := ?cm ! ?i ! ?j + 1]],
                 test_ctr = test_ctr ev + 1\<rparr>"
    by (simp add: evaluate_observation_def pl i(1) j(1) inc)
  moreover have "is_grid (?cm[?i := (?cm ! ?i)[?j := ?cm ! ?i ! ?j + 1]])"
    using assms(7) by (rule is_grid_increment)
  moreover have "matrix_total (?cm[?i := (?cm ! ?i)[?j := ?cm ! ?i ! ?j + 1]]) = matrix_total ?cm + 1"
    using inside by (rule matrix_total_increment)
  ultimately show ?thesis
    by (simp add: K_def)
qed

lemma evaluation_loop_ok:
  assumes "shaped s" and "0 \<le> length_n st" and "0 \<le> length_M2 st"
    and "is_grid (confusion_matrix ev)" and "length (predicted ev) = K"
  shows "\<exists>ev'. evaluation_loop hash no_test s st els ev = Inr ev'
           \<and> matrix_total (confusion_matrix ev') - test_ctr ev'
               = matrix_total (confusion_matrix ev) - test_ctr ev
           \<and> test_ctr ev' = (if els = [] then test_ctr ev
                              else min (test_ctr ev + int (length els))
                                       (max (test_ctr ev + 1) no_test))"
  using assms
proof (induction els arbitrary: st ev)
  case Nil
  then show ?case by simp
next
  case (Cons el els)
  from get_data_step_ok [OF Cons.prems(2,3), of hash el]
  obtain st1 f where
    g: "get_data_step hash st el =
            Inr (st1, ([flag_value (bot_flag el), flag_value (minor_flag el), flag_value (new_flag el)],
                       [1, f],
                       [sparse_index hash ''comment_'' (parsedcomment el),
                        sparse_index hash ''username_'' (user el),
                        sparse_index hash ''title_'' (title el)]))"
    and st1: "0 \<le> length_n st1" "0 \<le> length_M2 st1"
    using Cons.prems(2) by auto
  have x: "length [1, f] \<le> D" by (simp add: D_def)
  have xs: "\<forall>i\<in>set [sparse_index hash ''comment_'' (parsedcomment el),
                        sparse_index hash ''username_'' (user el),
                        sparse_index hash ''title_'' (title el)]. 0 \<le> i \<and> i < int D_sparse"
    by (simp add: sparse_index_range)
  from evaluate_observation_ok [OF Cons.prems(1) x xs flag_value_bit flag_value_bit flag_value_bit
      Cons.prems(4,5)]
  obtain ev1 where
    e: "evaluate_observation s
          ([flag_value (bot_flag el), flag_value (minor_flag el), flag_value (new_flag el)],
           [1, f],
           [sparse_index hash ''comment_'' (parsedcomment el),
            sparse_index hash ''username_'' (user el),
            sparse_index hash ''title_'' (title el)]) ev = Inr ev1"
    and g1: "is_grid (confusion_matrix ev1)" "length (predicted ev1) = K"
    and c1: "test_ctr ev1 = test_ctr ev + 1"
    and m1: "matrix_total (confusion_matrix ev1) = matrix_total (confusion_matrix ev) + 1"
    by blast
  show ?case
  proof (cases "no_test \<le> test_ctr ev1")
    case True
    then have "evaluation_loop hash no_test s st (el # els) ev = Inr ev1"
      by (simp add: g e)
    with True c1 m1 show ?thesis
      by simp
  next
    case False
    from Cons.IH [OF Cons.prems(1) st1 g1]
    obtain ev' where
      r: "evaluation_loop hash no_test s st1 els ev1 = Inr ev'"
      and t: "matrix_total (confusion_matrix ev') - test_ctr ev'
               = matrix_total (confusion_matrix ev1) - test_ctr ev1"
      and n: "test_ctr ev' = (if els = [] then test_ctr ev1
                              else min (test_ctr ev1 + int (length els))
                                       (max (test_ctr ev1 + 1) no_test))"
      by blast
    have "evaluation_loop hash no_test s st (el # els) ev = Inr ev'"
      using False by (simp add: g e r)
    moreover have "matrix_total (confusion_matrix ev') - test_ctr ev'
               = matrix_total (confusion_matrix ev) - test_ctr ev"
      using t c1 m1 by simp
    moreover have "test_ctr ev' = min (test_ctr ev + int (length (el # els)))
                                       (max (test_ctr ev + 1) no_test)"
      using n c1 False by (simp split: if_splits)
    ultimately show ?thesis
      by simp
  qed
qed

lemma init_evaluation_grid:
  "is_grid (confusion_matrix init_evaluation) \<and> length (predicted init_evaluation) = K
   \<and> matrix_total (confusion_matrix init_evaluation) = 0 \<and> test_ctr init_evaluation = 0"
  by (simp add: init_evaluation_def confusion_matrix0_def is_grid_def K_def matrix_total_def
      sum_list_replicate)

subsection \<open>The cells of the confusion matrix\<close>

lemma classes_lookup_rank:
  assumes "length y = K" and "\<forall>b\<in>set y. b = 0 \<or> b = 1"
  shows "classes_lookup y = Inr (tuple_rank y) \<and> tuple_rank y < 8"
proof -
  obtain a b c where y: "y = [a, b, c]"
    using assms(1) by (auto simp: K_def numeral_3_eq_3 length_Suc_conv)
  have "a = 0 \<or> a = 1" "b = 0 \<or> b = 1" "c = 0 \<or> c = 1"
    using assms(2) by (simp_all add: y)
  from classes_lookup_bits [OF this] show ?thesis
    by (simp add: y tuple_rank_def)
qed

lemma predict_label_threshold:
  assumes "shaped s" and "k < K" and "length x \<le> D"
    and "\<forall>i\<in>set xs. 0 \<le> i \<and> i < int D_sparse" and "k < length pr"
  shows "\<exists>p. predict (w s ! k) (w_sparse s ! k) x xs = Inr p
           \<and> predict_label s (y, x, xs) k pr = Inr (pr[k := (if 1 / 2 < p then 1 else 0)])"
proof -
  have fit: "length x \<le> length (w s ! k)"
    "\<forall>i\<in>set xs. 0 \<le> i \<and> i < int (length (w_sparse s ! k))"
    using assms(1,2,3,4) by (fastforce simp: shaped_def)+
  obtain p where p: "predict (w s ! k) (w_sparse s ! k) x xs = Inr p"
    using predict_ok [OF fit] by blast
  have "k < length (w s)" "k < length (w_sparse s)"
    using assms(1,2) by (simp_all add: shaped_def)
  then have "predict_label s (y, x, xs) k pr = Inr (pr[k := (if 1 / 2 < p then 1 else 0)])"
    using assms(5) by (simp add: predict_label_def p threshold_def)
  with p show ?thesis by blast
qed

lemma predict_labels_tuple:
  assumes "shaped s" and "length x \<le> D"
    and "\<forall>i\<in>set xs. 0 \<le> i \<and> i < int D_sparse" and "length pr = K"
  shows "predict_labels s (y, x, xs) [0..<K] pr = Inr (predicted_tuple s (y, x, xs))"
proof -
  obtain a0 a1 a2 where pr: "pr = [a0, a1, a2]"
    using assms(4) by (auto simp: K_def numeral_3_eq_3 length_Suc_conv)
  obtain p0 where p0: "predict (w s ! 0) (w_sparse s ! 0) x xs = Inr p0"
    "predict_label s (y, x, xs) 0 [a0, a1, a2] = Inr [if 1 / 2 < p0 then 1 else 0, a1, a2]"
    using predict_label_threshold [OF assms(1) _ assms(2,3), of 0 "[a0, a1, a2]" y]
    by (auto simp: K_def)
  obtain p1 where p1: "predict (w s ! 1) (w_sparse s ! 1) x xs = Inr p1"
    "predict_label s (y, x, xs) 1 [if 1 / 2 < p0 then 1 else 0, a1, a2]
       = Inr [if 1 / 2 < p0 then 1 else 0, if 1 / 2 < p1 then 1 else 0, a2]"
    using predict_label_threshold [OF assms(1) _ assms(2,3), of 1
        "[if 1 / 2 < p0 then 1 else 0, a1, a2]" y]
    by (auto simp: K_def)
  obtain p2 where p2: "predict (w s ! 2) (w_sparse s ! 2) x xs = Inr p2"
    "predict_label s (y, x, xs) 2 [if 1 / 2 < p0 then 1 else 0, if 1 / 2 < p1 then 1 else 0, a2]
       = Inr [if 1 / 2 < p0 then 1 else 0, if 1 / 2 < p1 then 1 else 0,
              if 1 / 2 < p2 then 1 else 0]"
    using predict_label_threshold [OF assms(1) _ assms(2,3), of 2
        "[if 1 / 2 < p0 then 1 else 0, if 1 / 2 < p1 then 1 else 0, a2]" y]
    by (auto simp: K_def)
  have "predicted_tuple s (y, x, xs)
          = [if 1 / 2 < p0 then 1 else 0, if 1 / 2 < p1 then 1 else 0, if 1 / 2 < p2 then 1 else 0]"
    using p0(1) p1(1) p2(1) by (simp add: predicted_tuple_def upt_K)
  moreover have "predict_labels s (y, x, xs) [0..<K] pr
          = Inr [if 1 / 2 < p0 then 1 else 0, if 1 / 2 < p1 then 1 else 0, if 1 / 2 < p2 then 1 else 0]"
    using p0(2) p1(2) p2(2) by (simp add: upt_K pr)
  ultimately show ?thesis by simp
qed

lemma predicted_tuple_bits:
  "length (predicted_tuple s obs) = K \<and> (\<forall>b\<in>set (predicted_tuple s obs). b = 0 \<or> b = 1)"
  by (auto simp: predicted_tuple_def split: sum.splits)

lemma predicted_tuple_nth:
  assumes "shaped s" and "k < K" and "length x \<le> D"
    and "\<forall>i\<in>set xs. 0 \<le> i \<and> i < int D_sparse"
  shows "\<exists>p. predict (w s ! k) (w_sparse s ! k) x xs = Inr p
           \<and> (predicted_tuple s (y, x, xs) ! k = 1 \<longleftrightarrow> 1 / 2 < p)
           \<and> (predicted_tuple s (y, x, xs) ! k = 0 \<longleftrightarrow> p \<le> 1 / 2)"
proof -
  have fit: "length x \<le> length (w s ! k)"
    "\<forall>i\<in>set xs. 0 \<le> i \<and> i < int (length (w_sparse s ! k))"
    using assms by (fastforce simp: shaped_def)+
  obtain p where p: "predict (w s ! k) (w_sparse s ! k) x xs = Inr p"
    using predict_ok [OF fit] by blast
  have "predicted_tuple s (y, x, xs) ! k = (if 1 / 2 < p then 1 else 0)"
    using assms(2) p by (simp add: predicted_tuple_def)
  with p show ?thesis by auto
qed

lemma nth_increment_cell:
  assumes "is_grid cm" and "i < 8" and "j < 8" and "a < 8" and "b < 8"
  shows "(cm[i := (cm ! i)[j := cm ! i ! j + 1]]) ! a ! b
           = cm ! a ! b + (if (i, j) = (a, b) then 1 else 0)"
  using assms by (auto simp: is_grid_def nth_list_update)

lemma evaluate_observation_cell:
  assumes "shaped s" and "well_formed obs"
    and "is_grid (confusion_matrix ev)" and "length (predicted ev) = K"
  shows "\<exists>i j. cell s obs = (i, j) \<and> i < 8 \<and> j < 8
           \<and> evaluate_observation s obs ev
               = Inr \<lparr>predicted = predicted_tuple s obs,
                      confusion_matrix = (confusion_matrix ev)
                         [i := (confusion_matrix ev ! i)[j := confusion_matrix ev ! i ! j + 1]],
                      test_ctr = test_ctr ev + 1\<rparr>"
proof -
  obtain y x xs where obs: "obs = (y, x, xs)"
    by (cases obs) auto
  have wf: "length y = K" "\<forall>b\<in>set y. b = 0 \<or> b = 1" "length x \<le> D"
    "\<forall>i\<in>set xs. 0 \<le> i \<and> i < int D_sparse"
    using assms(2) by (simp_all add: well_formed_def obs)
  let ?i = "tuple_rank y"
  let ?j = "tuple_rank (predicted_tuple s obs)"
  let ?cm = "confusion_matrix ev"
  have pl: "predict_labels s obs [0..<K] (predicted ev) = Inr (predicted_tuple s obs)"
    unfolding obs using assms(1) wf(3,4) assms(4) by (rule predict_labels_tuple)
  have i: "classes_lookup y = Inr ?i" "?i < 8"
    using classes_lookup_rank [OF wf(1,2)] by simp_all
  have j: "classes_lookup (predicted_tuple s obs) = Inr ?j" "?j < 8"
    using classes_lookup_rank [of "predicted_tuple s obs"] predicted_tuple_bits [of s obs]
    by simp_all
  have "?i < length ?cm" "?j < length (?cm ! ?i)"
    using assms(3) i(2) j(2) by (simp_all add: is_grid_def)
  then have inc: "increment_cell ?cm ?i ?j = Inr (?cm[?i := (?cm ! ?i)[?j := ?cm ! ?i ! ?j + 1]])"
    by (simp add: increment_cell_def)
  have "evaluate_observation s obs ev
               = Inr \<lparr>predicted = predicted_tuple s obs,
                      confusion_matrix = ?cm[?i := (?cm ! ?i)[?j := ?cm ! ?i ! ?j + 1]],
                      test_ctr = test_ctr ev + 1\<rparr>"
    using pl i(1) j(1) inc by (simp add: evaluate_observation_def obs)
  moreover have "cell s obs = (?i, ?j)"
    by (simp add: cell_def obs)
  ultimately show ?thesis
    using i(2) j(2) by blast
qed

lemma get_data_step_well_formed:
  assumes "0 \<le> length_n st" and "0 \<le> length_M2 st"
  shows "\<exists>st' obs. get_data_step hash st el = Inr (st', obs) \<and> well_formed obs
           \<and> 0 \<le> length_n st' \<and> 0 \<le> length_M2 st'"
proof -
  from get_data_step_ok [OF assms, of hash el]
  obtain st' f where
    g: "get_data_step hash st el =
            Inr (st', ([flag_value (bot_flag el), flag_value (minor_flag el), flag_value (new_flag el)],
                       [1, f],
                       [sparse_index hash ''comment_'' (parsedcomment el),
                        sparse_index hash ''username_'' (user el),
                        sparse_index hash ''title_'' (title el)]))"
    and st': "0 \<le> length_n st'" "0 \<le> length_M2 st'"
    using assms(1) by auto
  have "well_formed ([flag_value (bot_flag el), flag_value (minor_flag el), flag_value (new_flag el)],
                       [1, f],
                       [sparse_index hash ''comment_'' (parsedcomment el),
                        sparse_index hash ''username_'' (user el),
                        sparse_index hash ''title_'' (title el)])"
    using flag_value_bit by (simp add: well_formed_def K_def D_def sparse_index_range)
  with g st' show ?thesis by blast
qed

lemma evaluation_loop_cells:
  assumes "shaped s" and "0 \<le> length_n st" and "0 \<le> length_M2 st"
    and "is_grid (confusion_matrix ev)" and "length (predicted ev) = K"
  shows "\<exists>obs ev'. get_data hash st els = Inr obs \<and> (\<forall>z\<in>set obs. well_formed z)
           \<and> evaluation_loop hash no_test s st els ev = Inr ev'
           \<and> test_ctr ev' = (if els = [] then test_ctr ev
                              else min (test_ctr ev + int (length els))
                                       (max (test_ctr ev + 1) no_test))
           \<and> is_grid (confusion_matrix ev')
           \<and> (\<forall>a<8. \<forall>b<8. confusion_matrix ev' ! a ! b
                  = confusion_matrix ev ! a ! b
                    + int (count_list (map (cell s) (take (nat (test_ctr ev' - test_ctr ev)) obs))
                             (a, b)))"
  using assms
proof (induction els arbitrary: st ev)
  case Nil
  then show ?case by simp
next
  case (Cons el els)
  from get_data_step_well_formed [OF Cons.prems(2,3), of hash el]
  obtain st1 ob where g: "get_data_step hash st el = Inr (st1, ob)" and wf: "well_formed ob"
    and st1: "0 \<le> length_n st1" "0 \<le> length_M2 st1"
    by blast
  from evaluate_observation_cell [OF Cons.prems(1) wf Cons.prems(4,5)]
  obtain i j where c: "cell s ob = (i, j)" and ij: "i < 8" "j < 8"
    and e: "evaluate_observation s ob ev
               = Inr \<lparr>predicted = predicted_tuple s ob,
                      confusion_matrix = (confusion_matrix ev)
                         [i := (confusion_matrix ev ! i)[j := confusion_matrix ev ! i ! j + 1]],
                      test_ctr = test_ctr ev + 1\<rparr>"
    by blast
  let ?ev1 = "\<lparr>predicted = predicted_tuple s ob,
                      confusion_matrix = (confusion_matrix ev)
                         [i := (confusion_matrix ev ! i)[j := confusion_matrix ev ! i ! j + 1]],
                      test_ctr = test_ctr ev + 1\<rparr>"
  have g1: "is_grid (confusion_matrix ?ev1)" "length (predicted ?ev1) = K"
    using Cons.prems(4) predicted_tuple_bits [of s ob] by (simp_all add: is_grid_increment)
  have first: "confusion_matrix ?ev1 ! a ! b
                 = confusion_matrix ev ! a ! b + (if (i, j) = (a, b) then 1 else 0)"
    if "a < 8" "b < 8" for a b
    using nth_increment_cell [OF Cons.prems(4) ij that] by simp
  from Cons.IH [OF Cons.prems(1) st1 g1]
  obtain rest ev2 where
    d: "get_data hash st1 els = Inr rest" and wfr: "\<forall>z\<in>set rest. well_formed z"
    and r: "evaluation_loop hash no_test s st1 els ?ev1 = Inr ev2"
    and n: "test_ctr ev2 = (if els = [] then test_ctr ?ev1
                              else min (test_ctr ?ev1 + int (length els))
                                       (max (test_ctr ?ev1 + 1) no_test))"
    and g2: "is_grid (confusion_matrix ev2)"
    and cells: "\<forall>a<8. \<forall>b<8. confusion_matrix ev2 ! a ! b
                  = confusion_matrix ?ev1 ! a ! b
                    + int (count_list (map (cell s) (take (nat (test_ctr ev2 - test_ctr ?ev1)) rest))
                             (a, b))"
    by blast
  have data: "get_data hash st (el # els) = Inr (ob # rest)"
    by (simp add: g d)
  have wfa: "\<forall>z\<in>set (ob # rest). well_formed z"
    using wf wfr by simp
  show ?case
  proof (cases "no_test \<le> test_ctr ev + 1")
    case True
    have loop: "evaluation_loop hash no_test s st (el # els) ev = Inr ?ev1"
      using True by (simp add: g e)
    have "test_ctr ?ev1 = min (test_ctr ev + int (length (el # els))) (max (test_ctr ev + 1) no_test)"
      using True by simp
    moreover have "\<forall>a<8. \<forall>b<8. confusion_matrix ?ev1 ! a ! b
                  = confusion_matrix ev ! a ! b
                    + int (count_list (map (cell s) (take (nat (test_ctr ?ev1 - test_ctr ev)) (ob # rest)))
                             (a, b))"
      using first c by auto
    ultimately show ?thesis
      using data wfa loop g1(1) by (intro exI [of _ "ob # rest"] exI [of _ ?ev1]) simp
  next
    case False
    have loop: "evaluation_loop hash no_test s st (el # els) ev = Inr ev2"
      using False by (simp add: g e r)
    have ctr: "test_ctr ev2 = min (test_ctr ev + int (length (el # els))) (max (test_ctr ev + 1) no_test)"
      using n False by (simp split: if_splits)
    have ge: "test_ctr ev + 1 \<le> test_ctr ev2"
      using n by (simp split: if_splits)
    then have "nat (test_ctr ev2 - test_ctr ev) = Suc (nat (test_ctr ev2 - test_ctr ?ev1))"
      by simp
    then have tk: "take (nat (test_ctr ev2 - test_ctr ev)) (ob # rest)
                     = ob # take (nat (test_ctr ev2 - test_ctr ?ev1)) rest"
      by simp
    have "confusion_matrix ev2 ! a ! b
                  = confusion_matrix ev ! a ! b
                    + int (count_list (map (cell s) (take (nat (test_ctr ev2 - test_ctr ev)) (ob # rest)))
                             (a, b))" if "a < 8" "b < 8" for a b
      using cells first [OF that] that c unfolding tk by auto
    then show ?thesis
      using data wfa loop ctr g2 by (intro exI [of _ "ob # rest"] exI [of _ ev2]) simp
  qed
qed

lemma well_formed_cell:
  assumes "shaped s" and "well_formed obs"
  shows "fst (cell s obs) < 8 \<and> snd (cell s obs) < 8
         \<and> (\<forall>k<K. \<exists>p. predict (w s ! k) (w_sparse s ! k) (fst (snd obs)) (snd (snd obs)) = Inr p
                \<and> (predicted_tuple s obs ! k = 1 \<longleftrightarrow> 1 / 2 < p)
                \<and> (predicted_tuple s obs ! k = 0 \<longleftrightarrow> p \<le> 1 / 2))"
proof -
  obtain y x xs where obs: "obs = (y, x, xs)"
    by (cases obs) auto
  have wf: "length y = K" "\<forall>b\<in>set y. b = 0 \<or> b = 1" "length x \<le> D"
    "\<forall>i\<in>set xs. 0 \<le> i \<and> i < int D_sparse"
    using assms(2) by (simp_all add: well_formed_def obs)
  have "tuple_rank y < 8"
    using classes_lookup_rank [OF wf(1,2)] by simp
  moreover have "tuple_rank (predicted_tuple s obs) < 8"
    using classes_lookup_rank [of "predicted_tuple s obs"] predicted_tuple_bits [of s obs]
    by simp
  moreover have "\<exists>p. predict (w s ! k) (w_sparse s ! k) x xs = Inr p
                \<and> (predicted_tuple s (y, x, xs) ! k = 1 \<longleftrightarrow> 1 / 2 < p)
                \<and> (predicted_tuple s (y, x, xs) ! k = 0 \<longleftrightarrow> p \<le> 1 / 2)" if "k < K" for k
    using assms(1) that wf(3,4) by (rule predicted_tuple_nth)
  ultimately show ?thesis
    by (simp add: cell_def obs)
qed

lemma predicted_tuple_init_trainer:
  assumes "length x \<le> D" and "\<forall>i\<in>set xs. 0 \<le> i \<and> i < int D_sparse"
  shows "predicted_tuple init_trainer (y, x, xs) = [0, 0, 0]"
proof -
  have p: "predict (w init_trainer ! k) (w_sparse init_trainer ! k) x xs = Inr (1 / 2)" if "k < K" for k
    using that assms by (intro predict_zero_weights) (simp_all add: init_trainer_def)
  show ?thesis
    unfolding predicted_tuple_def upt_K using p [of 0] p [of 1] p [of 2]
    by (simp add: K_def)
qed

lemma shaped_first_weight_one: "shaped (init_trainer\<lparr>w := replicate K [1, 0]\<rparr>)"
  by (simp add: shaped_def init_trainer_def D_def)

lemma predict_first_weight_one:
  "predict [1, 0] (replicate D_sparse 0) [1, 2] [0, 1, 2] = Inr (1 / (1 + exp (- 1)))"
proof -
  have "predict [1, 0] (replicate D_sparse 0) [1, 2] [0, 1, 2]
          = Inr (1 / (1 + exp (- clip ((\<Sum>j<length [1, 2 :: real]. [1, 0] ! j * [1, 2] ! j)
                                         + (\<Sum>i\<leftarrow>[0, 1, 2]. replicate D_sparse 0 ! nat i)))))"
    by (rule predict_ok) (simp_all add: D_sparse_def)
  also have "(\<Sum>j<length [1, 2 :: real]. [1, 0] ! j * [1, 2] ! j) = (1 :: real)"
    by (simp add: lessThan_Suc numeral_2_eq_2)
  also have "(\<Sum>i\<leftarrow>[0, 1, 2]. replicate D_sparse 0 ! nat i) = (0 :: real)"
    by (simp add: D_sparse_def)
  finally show ?thesis
    by (simp add: clip_def)
qed


lemma dot_product_distinct:
  assumes "length x \<le> length wk" and "\<forall>i\<in>set xs. 0 \<le> i \<and> i < int (length ws)"
    and "distinct xs"
  shows "dot_product wk ws x xs = Inr (one_hot_dot wk ws x xs)"
proof -
  have "(\<Sum>i\<leftarrow>xs. ws ! nat i) = (\<Sum>i\<in>set xs. ws ! nat i)"
    using assms(3) by (rule sum_list_distinct_conv_sum_set)
  then show ?thesis
    using assms(1,2) by (simp add: dot_product_eq one_hot_dot_def)
qed

lemma update_distinct:
  assumes "length x \<le> length wk" and "\<forall>i\<in>set xs. 0 \<le> i \<and> i < int (length ws)"
    and "distinct xs"
  shows "\<exists>wk' ws'. update alpha wk ws x xs p y = Inr (wk', ws')
           \<and> length wk' = length wk \<and> length ws' = length ws
           \<and> (\<forall>i<length wk. wk' ! i = (if i < length x then wk ! i + alpha * (y - p) * x ! i
                                         else wk ! i))
           \<and> (\<forall>j<length ws. ws' ! j = (if int j \<in> set xs then ws ! j + alpha * (y - p)
                                         else ws ! j))"
proof -
  have "count_list xs v = (if v \<in> set xs then 1 else 0)" for v
    using assms(3) by (induction xs) auto
  then show ?thesis
    using assms(1,2)
    by (simp add: update_def update_dense_eq update_sparse_eq mult.commute)
qed

section \<open>The claims\<close>

subsection \<open>C1: the running statistics of the extractor\<close>

text \<open>
  Claim C1 says that the extractor keeps \<open>(n, mean, M2)\<close> by Welford's algorithm, with
  the standard deviation 0 and the raw length as feature for the first observation.
  \<^verbatim>\<open>get_data\<close> increments \<^verbatim>\<open>length_n\<close> and \<^verbatim>\<open>get_length_statistics\<close> increments the
  count it is given once more, so the first observation is averaged with the count 2:
  for the first record, of length 10, the mean becomes 5 instead of 10, the standard
  deviation is \<open>sqrt 50\<close> instead of 0, and the feature is \<open>5 / sqrt 50\<close>, below 1,
  instead of the raw length 10.
\<close>

theorem first_observation_is_halved:
  "get_data_step hash fresh_stats (sized_change 0 10)
     = Inr (\<lparr>length_n = 1, length_mean = 5, length_M2 = 50\<rparr>,
            ([0, 0, 0], [1, 5 / sqrt 50],
             [sparse_index hash ''comment_'' [], sparse_index hash ''username_'' [],
              sparse_index hash ''title_'' []]))
   \<and> 5 / sqrt 50 < (1::real)"
  using sqrt_50_gt_5
  by (simp add: get_data_step_def get_length_statistics_def py_sqrt_def fresh_stats_def
      sized_change_def flag_value_def Let_def)

subsection \<open>C2: the range of predict\<close>


subsection \<open>C3: the dot product of predict\<close>

text \<open>
  Claim C3 says that every distinct sparse index contributes its weight exactly once,
  also when two or three tagged strings hash to the same index; the comment in the
  code says the same (\<^verbatim>\<open># *1 if i in x_sparse\<close>). The loop of \<^verbatim>\<open>predict\<close> runs over
  the three slots of \<^verbatim>\<open>X_sparse\<close> and adds the weight once per slot. With the string
  length as hash, a record with the comment \<open>a\<close>, no user name and the title \<open>abc\<close>
  gets the index list \<open>[9, 9, 9]\<close>; with the sparse weight 1 at index 9 the code's dot
  product is 3, where the one-hot value is 1.
\<close>

theorem dot_product_collision_counts_thrice:
  "(\<exists>st' Y X. get_data_step length_hash fresh_stats
       (sized_change 0 10\<lparr>parsedcomment := ''a'', title := ''abc''\<rparr>) = Inr (st', (Y, X, [9, 9, 9])))
   \<and> dot_product [0, 0] [0, 0, 0, 0, 0, 0, 0, 0, 0, 1] [1, 0] [9, 9, 9] = Inr 3
   \<and> one_hot_dot [0, 0] [0, 0, 0, 0, 0, 0, 0, 0, 0, 1] [1, 0] [9, 9, 9] = 1"
proof -
  have "0 \<le> length_n fresh_stats" "0 \<le> length_M2 fresh_stats"
    by (simp_all add: fresh_stats_def)
  from get_data_step_ok [OF this, of length_hash
      "sized_change 0 10\<lparr>parsedcomment := ''a'', title := ''abc''\<rparr>"]
  have "\<exists>st' Y X. get_data_step length_hash fresh_stats
       (sized_change 0 10\<lparr>parsedcomment := ''a'', title := ''abc''\<rparr>) = Inr (st', (Y, X, [9, 9, 9]))"
    by (auto simp: sized_change_def sparse_index_def length_hash_def D_sparse_def)
  moreover have "dot_product [0, 0] [0, 0, 0, 0, 0, 0, 0, 0, 0, 1] [1, 0] [9, 9, 9] = Inr 3"
    by (simp add: dot_product_def py_index_def py_slot_def)
  moreover have "one_hot_dot [0, 0] [0, 0, 0, 0, 0, 0, 0, 0, 0, 1] [1, 0] [9, 9, 9] = 1"
    by (simp add: one_hot_dot_def lessThan_Suc numeral_2_eq_2)
  ultimately show ?thesis by blast
qed

subsection \<open>C4: the feed with the size changes 10, - 10, 0\<close>

text \<open>
  Claim C4 expects the normalized lengths \<open>10\<close>, about \<open>- 1\<close> and a third value. The
  extractor yields \<open>5 / sqrt 50\<close> first, not 10, and a positive second value, not one
  near \<open>- 1\<close>: the raw length is the absolute value of the size change, so the second
  record has the length 10 again.
\<close>

theorem delta_feed_counterexample:
  "normalized_lengths length_hash delta_feed
     = Inr [5 / sqrt 50, (10 / 3) / sqrt (100 / 3), - 5 / sqrt (100 / 3)]
   \<and> 5 / sqrt 50 \<noteq> (10::real)
   \<and> (0::real) < (10 / 3) / sqrt (100 / 3)"
proof -
  have "5 / sqrt 50 < (1::real)"
    using sqrt_50_gt_5 by simp
  then have "5 / sqrt 50 \<noteq> (10::real)"
    by linarith
  then show ?thesis
    by (simp add: delta_feed_run)
qed

text \<open>
  C4 as amended: the extractor normalizes the magnitudes of the size changes, so the
  feed with the changes \<open>10, - 10, 0\<close> yields the same three normalized lengths as the
  feed with the changes \<open>10, 10, 0\<close>; the two records of length 10 get a positive
  value and the record of length 0 a negative one.
\<close>

theorem delta_feed_uses_magnitudes:
  "normalized_lengths hash delta_feed = normalized_lengths hash magnitude_feed
   \<and> (\<exists>a b c. normalized_lengths hash delta_feed = Inr [a, b, c] \<and> 0 < a \<and> 0 < b \<and> c < 0)"
  by (simp add: delta_feed_run magnitude_feed_run)

subsection \<open>C5: one call of update\<close>

text \<open>
  Claim C5 says that one call of \<^verbatim>\<open>update\<close> adds \<open>alpha * (y - p)\<close> to the sparse
  weight at each index of the observation's index list; the comment in the code gives
  the feature of such an index the value 1 (\<^verbatim>\<open>feature[i] == 1 if i in x\<close>). The loop
  of \<^verbatim>\<open>update\<close> adds once per slot of the list: for the index list \<open>[9, 9, 9]\<close>,
  \<open>alpha = 1 / 2\<close>, \<open>p = 0\<close> and \<open>y = 1\<close> the weight at index 9 grows by \<open>3 / 2\<close>, three
  times \<open>alpha * (y - p) = 1 / 2\<close>. (For pairwise distinct indices the claim holds:
  \<open>update_distinct\<close>.)
\<close>

theorem update_collision_adds_thrice:
  "update (1 / 2) [0, 0] [0, 0, 0, 0, 0, 0, 0, 0, 0, 0] [1, 2] [9, 9, 9] 0 1
     = Inr ([1 / 2, 1], [0, 0, 0, 0, 0, 0, 0, 0, 0, 3 / 2])
   \<and> update (1 / 2) [0, 0] [0, 0, 0, 0, 0, 0, 0, 0, 0, 0] [1, 2] [9, 9, 9] 0 1
     \<noteq> Inr ([1 / 2, 1], [0, 0, 0, 0, 0, 0, 0, 0, 0, 0 + (1 / 2) * (1 - 0)])"
  by (simp add: update_def py_slot_def)

subsection \<open>C6: the labels are trained independently\<close>

text \<open>
  Claim C6: for a trainer of the notebook's shape and an observation as the extractor
  yields it, the training step returns; the dense and sparse weights it leaves for
  label \<open>k\<close> are those of one \<^verbatim>\<open>update\<close> call on label \<open>k\<close>'s weights as they were
  before the step, with the prediction made from them and the target \<open>y[k]\<close>, so the
  calls for the other labels neither changed nor read them; and the call for label
  \<open>k\<close> alone leaves the weights of every other label as they were.
\<close>

theorem training_is_label_independent:
  assumes "shaped s" and "length x \<le> D"
    and "\<forall>i\<in>set xs. 0 \<le> i \<and> i < int D_sparse" and "K \<le> length y"
  shows "\<exists>s'. train_observation alpha (y, x, xs) s = Inr s'
           \<and> (\<forall>k<K. \<exists>p. predict (w s ! k) (w_sparse s ! k) x xs = Inr p
                  \<and> update alpha (w s ! k) (w_sparse s ! k) x xs p (of_int (y ! k))
                      = Inr (w s' ! k, w_sparse s' ! k))
           \<and> (\<forall>k<K. \<exists>s1. train_label alpha (y, x, xs) k s = Inr s1
                  \<and> (\<forall>j. j \<noteq> k \<longrightarrow> w s1 ! j = w s ! j \<and> w_sparse s1 ! j = w_sparse s ! j))"
proof -
  have "\<exists>s1. train_label alpha (y, x, xs) k s = Inr s1
                  \<and> (\<forall>j. j \<noteq> k \<longrightarrow> w s1 ! j = w s ! j \<and> w_sparse s1 ! j = w_sparse s ! j)"
    if "k < K" for k
    using train_label_ok [OF assms(1) that assms(2,3,4), of alpha] by auto
  with train_observation_ok [OF assms, of alpha] show ?thesis
    by blast
qed

theorem training_is_label_independent_witness:
  "\<exists>s'. train_observation alpha0 ([0, 1, 0], [1, 1 / 2], [3, 5, 7]) init_trainer = Inr s'
         \<and> w s' ! 1 = [1 / 20, 1 / 40]"
proof -
  have z: "predict (replicate D 0) (replicate D_sparse 0) [1, 1 / 2] [3, 5, 7] = Inr (1 / 2)"
    by (rule predict_zero_weights) (simp_all add: D_def D_sparse_def)
  from training_is_label_independent [OF shaped_init_trainer, of "[1, 1 / 2]" "[3, 5, 7]" "[0, 1, 0]" alpha0]
  obtain s' where
    t: "train_observation alpha0 ([0, 1, 0], [1, 1 / 2], [3, 5, 7]) init_trainer = Inr s'"
    and own: "\<forall>k<K. \<exists>p. predict (w init_trainer ! k) (w_sparse init_trainer ! k) [1, 1 / 2] [3, 5, 7] = Inr p
                  \<and> update alpha0 (w init_trainer ! k) (w_sparse init_trainer ! k) [1, 1 / 2] [3, 5, 7] p
                       (of_int ([0, 1, 0] ! k))
                      = Inr (w s' ! k, w_sparse s' ! k)"
    by (auto simp: D_def D_sparse_def K_def)
  have one: "1 < K" by (simp add: K_def)
  then have i: "w init_trainer ! 1 = replicate D 0" "w_sparse init_trainer ! 1 = replicate D_sparse 0"
    by (simp_all add: init_trainer_def)
  from own one obtain p where
    p: "predict (w init_trainer ! 1) (w_sparse init_trainer ! 1) [1, 1 / 2] [3, 5, 7] = Inr p"
    and u: "update alpha0 (w init_trainer ! 1) (w_sparse init_trainer ! 1) [1, 1 / 2] [3, 5, 7] p
                       (of_int ([0, 1, 0] ! 1))
                      = Inr (w s' ! 1, w_sparse s' ! 1)"
    by blast
  from p have "p = 1 / 2"
    unfolding i z by simp
  with u have "update alpha0 (replicate D 0) (replicate D_sparse 0) [1, 1 / 2] [3, 5, 7] (1 / 2) 1
                      = Inr (w s' ! 1, w_sparse s' ! 1)"
    unfolding i by simp
  then have "w s' ! 1 = [1 / 20, 1 / 40]"
    by (auto simp: update_def update_dense_eq D_def alpha0_def numeral_2_eq_2 split: sum.splits)
  with t show ?thesis by blast
qed

subsection \<open>C7: learning rate zero, weights zero\<close>

text \<open>
  Claim C7: with \<open>alpha = 0\<close> a call of \<^verbatim>\<open>update\<close> returns the weights it was given,
  and the training loop, whatever the number of records and hence of \<^verbatim>\<open>update\<close>
  calls, ends with the dense and sparse weights it started from; with all weights
  zero \<^verbatim>\<open>predict\<close> returns exactly \<open>1 / 2\<close> for every feature vector that fits the
  weights.
\<close>

theorem zero_rate_and_zero_weights:
  "(length x \<le> length wk \<and> (\<forall>i\<in>set xs. 0 \<le> i \<and> i < int (length ws))
      \<longrightarrow> update 0 wk ws x xs p y = Inr (wk, ws))
   \<and> (shaped s \<and> 0 \<le> length_n st \<and> 0 \<le> length_M2 st
      \<longrightarrow> (\<exists>s' ctr'. training_loop hash 0 expired st els (s, ctr) = Inr (s', ctr')
             \<and> w s' = w s \<and> w_sparse s' = w_sparse s))
   \<and> (length x \<le> length wk \<and> (\<forall>i\<in>set xs. 0 \<le> i \<and> i < int (length ws))
        \<and> (\<forall>v\<in>set wk. v = 0) \<and> (\<forall>v\<in>set ws. v = 0)
      \<longrightarrow> predict wk ws x xs = Inr (1 / 2))"
proof (intro conjI impI)
  assume "length x \<le> length wk \<and> (\<forall>i\<in>set xs. 0 \<le> i \<and> i < int (length ws))"
  then show "update 0 wk ws x xs p y = Inr (wk, ws)"
    by (simp add: update_zero_rate_ok)
next
  assume a: "shaped s \<and> 0 \<le> length_n st \<and> 0 \<le> length_M2 st"
  then obtain s' ctr' where t: "training_loop hash 0 expired st els (s, ctr) = Inr (s', ctr')"
    using training_loop_ok [of s st hash 0 expired els ctr] by blast
  then have "w s' = w s \<and> w_sparse s' = w_sparse s"
    by (rule training_loop_zero_rate)
  with t show "\<exists>s' ctr'. training_loop hash 0 expired st els (s, ctr) = Inr (s', ctr')
             \<and> w s' = w s \<and> w_sparse s' = w_sparse s"
    by blast
next
  assume "length x \<le> length wk \<and> (\<forall>i\<in>set xs. 0 \<le> i \<and> i < int (length ws))
        \<and> (\<forall>v\<in>set wk. v = 0) \<and> (\<forall>v\<in>set ws. v = 0)"
  then show "predict wk ws x xs = Inr (1 / 2)"
    by (simp add: predict_zero_weights)
qed

theorem zero_rate_and_zero_weights_witness:
  "update 0 [1, 2] [3, 4] [5, 6] [0, 1, 1] (1 / 4) 1 = Inr ([1, 2], [3, 4])
   \<and> (\<exists>s' ctr'. training_loop length_hash 0 (\<lambda>ctr. False) fresh_stats
                    [sized_change 0 10, sized_change 10 4] (init_trainer, 0) = Inr (s', ctr')
         \<and> w s' = w init_trainer \<and> w_sparse s' = w_sparse init_trainer)
   \<and> predict [0, 0] [0, 0, 0] [1, 7] [0, 2, 2] = Inr (1 / 2)"
  using zero_rate_and_zero_weights [of "[5, 6]" "[1, 2]" "[0, 1, 1]" "[3, 4]" "1 / 4" 1
      init_trainer fresh_stats length_hash "\<lambda>ctr. False"
      "[sized_change 0 10, sized_change 10 4]" 0]
    zero_rate_and_zero_weights [of "[1, 7]" "[0, 0]" "[0, 2, 2]" "[0, 0, 0]"]
    shaped_init_trainer
  by (simp add: fresh_stats_def)

subsection \<open>C8: the sparse feature index\<close>

text \<open>
  Claim C8: for a fixed hash function the index \<open>abs(hash(tagged string)) mod D_sparse\<close>
  lies in \<open>[0, 2\<^sup>1\<^sup>8)\<close> for every string, and the three indices the extractor yields
  for a record are this function of the record's tagged strings, whatever the running
  statistics are.
\<close>

theorem sparse_index_deterministic_in_range:
  assumes "0 \<le> length_n st" and "0 \<le> length_M2 st"
  shows "(\<forall>tag s. 0 \<le> sparse_index hash tag s \<and> sparse_index hash tag s < 2 ^ 18)
         \<and> (\<exists>st' Y X. get_data_step hash st el =
               Inr (st', (Y, X, [sparse_index hash ''comment_'' (parsedcomment el),
                                 sparse_index hash ''username_'' (user el),
                                 sparse_index hash ''title_'' (title el)])))"
proof -
  have "0 \<le> sparse_index hash tag s \<and> sparse_index hash tag s < 2 ^ 18" for tag s
    using sparse_index_range [of hash tag s] by (simp add: D_sparse_def)
  moreover have "\<exists>st' Y X. get_data_step hash st el =
               Inr (st', (Y, X, [sparse_index hash ''comment_'' (parsedcomment el),
                                 sparse_index hash ''username_'' (user el),
                                 sparse_index hash ''title_'' (title el)]))"
    using get_data_step_ok [OF assms, of hash el] by blast
  ultimately show ?thesis by blast
qed

theorem sparse_index_deterministic_in_range_witness:
  "sparse_index length_hash ''title_'' ''Main Page'' = 15
   \<and> (\<exists>st' Y X. get_data_step length_hash fresh_stats
                    (sized_change 0 10\<lparr>parsedcomment := ''typo'', user := ''Ann'',
                                        title := ''Main Page''\<rparr>)
                  = Inr (st', (Y, X, [12, 12, 15])))"
  using sparse_index_deterministic_in_range [of fresh_stats length_hash
      "sized_change 0 10\<lparr>parsedcomment := ''typo'', user := ''Ann'', title := ''Main Page''\<rparr>"]
  by (simp add: fresh_stats_def sparse_index_def length_hash_def sized_change_def D_sparse_def)

subsection \<open>C9: the confusion matrix counts the observations\<close>

text \<open>
  Claim C9: for a trainer of the notebook's shape the evaluation loop returns, having
  processed all of the feed, or \<^verbatim>\<open>no_test\<close> records of it when the feed is longer. The
  entry in row \<open>a\<close> and column \<open>b\<close> of its matrix is the number of processed
  observations whose actual tuple has rank \<open>a\<close> and whose predicted tuple has rank
  \<open>b\<close>, the rank of \<open>(bot, minor, new)\<close> being \<open>4 bot + 2 minor + new\<close>, its position
  in lexicographic order, and the predicted bit of a label being 1 exactly when
  \<^verbatim>\<open>predict\<close> returns more than \<open>1 / 2\<close> for it. Every observation has its cell inside
  the matrix, so the sum of all 64 entries equals the number of processed
  observations; one evaluation step adds 1 to the cell of its observation and changes
  no other entry.
\<close>

theorem confusion_matrix_counts_observations:
  assumes "shaped s"
  shows "(\<exists>obs ev. get_data hash fresh_stats els = Inr obs
            \<and> evaluation_loop hash no_test s fresh_stats els init_evaluation = Inr ev
            \<and> test_ctr ev = (if els = [] then 0 else min (int (length els)) (max 1 no_test))
            \<and> (\<forall>a<8. \<forall>b<8. confusion_matrix ev ! a ! b
                   = int (count_list (map (cell s) (take (nat (test_ctr ev)) obs)) (a, b)))
            \<and> (\<forall>z\<in>set obs. fst (cell s z) < 8 \<and> snd (cell s z) < 8
                   \<and> (\<forall>k<K. \<exists>p. predict (w s ! k) (w_sparse s ! k) (fst (snd z)) (snd (snd z)) = Inr p
                          \<and> (predicted_tuple s z ! k = 1 \<longleftrightarrow> 1 / 2 < p)
                          \<and> (predicted_tuple s z ! k = 0 \<longleftrightarrow> p \<le> 1 / 2)))
            \<and> is_grid (confusion_matrix ev)
            \<and> matrix_total (confusion_matrix ev) = test_ctr ev)
         \<and> (\<forall>z (ev0::evaluation). well_formed z \<and> is_grid (confusion_matrix ev0) \<and> length (predicted ev0) = K
              \<longrightarrow> (\<exists>i j. cell s z = (i, j) \<and> i < 8 \<and> j < 8
                     \<and> evaluate_observation s z ev0
                         = Inr \<lparr>predicted = predicted_tuple s z,
                                confusion_matrix = (confusion_matrix ev0)
                                  [i := (confusion_matrix ev0 ! i)
                                          [j := confusion_matrix ev0 ! i ! j + 1]],
                                test_ctr = test_ctr ev0 + 1\<rparr>))
         \<and> (\<forall>a\<in>{0, 1}. \<forall>b\<in>{0, 1}. \<forall>c\<in>{0, 1}.
               classes_lookup [a, b, c] = Inr (tuple_rank [a, b, c])
               \<and> tuple_rank [a, b, c] = nat (4 * a + 2 * b + c))"
proof (intro conjI allI impI ballI)
  have fresh: "0 \<le> length_n fresh_stats" "0 \<le> length_M2 fresh_stats"
    by (simp_all add: fresh_stats_def)
  have init: "is_grid (confusion_matrix init_evaluation)" "length (predicted init_evaluation) = K"
    "matrix_total (confusion_matrix init_evaluation) = 0" "test_ctr init_evaluation = 0"
    using init_evaluation_grid by simp_all
  have zero: "confusion_matrix init_evaluation ! a ! b = 0" if "a < 8" "b < 8" for a b
    using that by (simp add: init_evaluation_def confusion_matrix0_def)
  from evaluation_loop_cells [OF assms fresh init(1,2), of hash els no_test]
  obtain obs ev where
    d: "get_data hash fresh_stats els = Inr obs" and wf: "\<forall>z\<in>set obs. well_formed z"
    and l: "evaluation_loop hash no_test s fresh_stats els init_evaluation = Inr ev"
    and n: "test_ctr ev = (if els = [] then test_ctr init_evaluation
                              else min (test_ctr init_evaluation + int (length els))
                                       (max (test_ctr init_evaluation + 1) no_test))"
    and g: "is_grid (confusion_matrix ev)"
    and cells: "\<forall>a<8. \<forall>b<8. confusion_matrix ev ! a ! b
                  = confusion_matrix init_evaluation ! a ! b
                    + int (count_list (map (cell s) (take (nat (test_ctr ev - test_ctr init_evaluation)) obs))
                             (a, b))"
    by blast
  from evaluation_loop_ok [OF assms fresh init(1,2), of hash no_test els] l
  have total: "matrix_total (confusion_matrix ev) = test_ctr ev"
    using init(3,4) by auto
  have "\<forall>a<8. \<forall>b<8. confusion_matrix ev ! a ! b
                   = int (count_list (map (cell s) (take (nat (test_ctr ev)) obs)) (a, b))"
    using cells zero init(4) by simp
  moreover have "\<forall>z\<in>set obs. fst (cell s z) < 8 \<and> snd (cell s z) < 8
                   \<and> (\<forall>k<K. \<exists>p. predict (w s ! k) (w_sparse s ! k) (fst (snd z)) (snd (snd z)) = Inr p
                          \<and> (predicted_tuple s z ! k = 1 \<longleftrightarrow> 1 / 2 < p)
                          \<and> (predicted_tuple s z ! k = 0 \<longleftrightarrow> p \<le> 1 / 2))"
    using wf well_formed_cell [OF assms] by blast
  moreover have "test_ctr ev = (if els = [] then 0 else min (int (length els)) (max 1 no_test))"
    using n init(4) by simp
  ultimately
  show "\<exists>obs ev. get_data hash fresh_stats els = Inr obs
            \<and> evaluation_loop hash no_test s fresh_stats els init_evaluation = Inr ev
            \<and> test_ctr ev = (if els = [] then 0 else min (int (length els)) (max 1 no_test))
            \<and> (\<forall>a<8. \<forall>b<8. confusion_matrix ev ! a ! b
                   = int (count_list (map (cell s) (take (nat (test_ctr ev)) obs)) (a, b)))
            \<and> (\<forall>z\<in>set obs. fst (cell s z) < 8 \<and> snd (cell s z) < 8
                   \<and> (\<forall>k<K. \<exists>p. predict (w s ! k) (w_sparse s ! k) (fst (snd z)) (snd (snd z)) = Inr p
                          \<and> (predicted_tuple s z ! k = 1 \<longleftrightarrow> 1 / 2 < p)
                          \<and> (predicted_tuple s z ! k = 0 \<longleftrightarrow> p \<le> 1 / 2)))
            \<and> is_grid (confusion_matrix ev)
            \<and> matrix_total (confusion_matrix ev) = test_ctr ev"
    using d l g total by blast
next
  fix z and ev0 :: evaluation
  assume "well_formed z \<and> is_grid (confusion_matrix ev0) \<and> length (predicted ev0) = K"
  then show "\<exists>i j. cell s z = (i, j) \<and> i < 8 \<and> j < 8
                     \<and> evaluate_observation s z ev0
                         = Inr \<lparr>predicted = predicted_tuple s z,
                                confusion_matrix = (confusion_matrix ev0)
                                  [i := (confusion_matrix ev0 ! i)
                                          [j := confusion_matrix ev0 ! i ! j + 1]],
                                test_ctr = test_ctr ev0 + 1\<rparr>"
    using evaluate_observation_cell [OF assms, of z ev0] by blast
next
  fix a b c :: int
  assume "a \<in> {0, 1}" "b \<in> {0, 1}" "c \<in> {0, 1}"
  then have "a = 0 \<or> a = 1" "b = 0 \<or> b = 1" "c = 0 \<or> c = 1"
    by auto
  from classes_lookup_bits [OF this]
  show "classes_lookup [a, b, c] = Inr (tuple_rank [a, b, c])"
    by (simp add: tuple_rank_def)
next
  fix a b c :: int
  show "tuple_rank [a, b, c] = nat (4 * a + 2 * b + c)"
    by (simp add: tuple_rank_def)
qed

theorem confusion_matrix_counts_observations_witness:
  "\<exists>ev. evaluation_loop length_hash no_test0 init_trainer fresh_stats
            [sized_change 0 10, sized_change 10 4\<lparr>minor_flag := Some []\<rparr>] init_evaluation = Inr ev
      \<and> test_ctr ev = 2 \<and> matrix_total (confusion_matrix ev) = 2
      \<and> confusion_matrix ev ! 0 ! 0 = 1 \<and> confusion_matrix ev ! 2 ! 0 = 1
      \<and> confusion_matrix ev ! 0 ! 2 = 0"
proof -
  let ?feed = "[sized_change 0 10, sized_change 10 4\<lparr>minor_flag := Some []\<rparr>]"
  have fresh: "0 \<le> length_n fresh_stats" "0 \<le> length_M2 fresh_stats"
    by (simp_all add: fresh_stats_def)
  from get_data_step_ok [OF fresh, of length_hash "sized_change 0 10"]
  obtain st1 f1 where
    s1: "get_data_step length_hash fresh_stats (sized_change 0 10)
           = Inr (st1, ([0, 0, 0], [1, f1], [8, 9, 6]))"
    and i1: "0 \<le> length_n st1" "0 \<le> length_M2 st1"
    by (auto simp: sized_change_def flag_value_def sparse_index_def length_hash_def D_sparse_def
        fresh_stats_def)
  from get_data_step_ok [OF i1, of length_hash "sized_change 10 4\<lparr>minor_flag := Some []\<rparr>"]
  obtain st2 f2 where
    s2: "get_data_step length_hash st1 (sized_change 10 4\<lparr>minor_flag := Some []\<rparr>)
           = Inr (st2, ([0, 1, 0], [1, f2], [8, 9, 6]))"
    by (auto simp: sized_change_def flag_value_def sparse_index_def length_hash_def D_sparse_def)
  have data: "get_data length_hash fresh_stats ?feed
                = Inr [([0, 0, 0], [1, f1], [8, 9, 6]), ([0, 1, 0], [1, f2], [8, 9, 6])]"
    by (simp add: s1 s2)
  have c1: "cell init_trainer ([0, 0, 0], [1, f1], [8, 9, 6]) = (0, 0)"
    and c2: "cell init_trainer ([0, 1, 0], [1, f2], [8, 9, 6]) = (2, 0)"
    by (simp_all add: cell_def tuple_rank_def predicted_tuple_init_trainer D_def D_sparse_def)
  from confusion_matrix_counts_observations [OF shaped_init_trainer, of length_hash ?feed no_test0]
  obtain obs ev where
    d: "get_data length_hash fresh_stats ?feed = Inr obs"
    and l: "evaluation_loop length_hash no_test0 init_trainer fresh_stats ?feed init_evaluation = Inr ev"
    and n: "test_ctr ev = 2"
    and cells: "\<forall>a<8. \<forall>b<8. confusion_matrix ev ! a ! b
                   = int (count_list (map (cell init_trainer) (take (nat (test_ctr ev)) obs)) (a, b))"
    and t: "matrix_total (confusion_matrix ev) = test_ctr ev"
    by (auto simp: no_test0_def)
  have obs: "obs = [([0, 0, 0], [1, f1], [8, 9, 6]), ([0, 1, 0], [1, f2], [8, 9, 6])]"
    using d data by simp
  have "confusion_matrix ev ! 0 ! 0 = 1" "confusion_matrix ev ! 2 ! 0 = 1"
    "confusion_matrix ev ! 0 ! 2 = 0"
    using cells by (simp_all add: n obs c1 c2)
  with l n t show ?thesis by simp
qed

subsection \<open>C10: the threshold of the evaluator\<close>

text \<open>
  Claim C10: for every label the evaluator's predicted bit is 1 exactly when the
  probability that \<^verbatim>\<open>predict\<close> returns for the label is strictly greater than
  \<open>1 / 2\<close>, and 0 exactly when it is at most \<open>1 / 2\<close>: for one label, for the loop over
  the labels and for the tuple an evaluation step leaves in \<^verbatim>\<open>predicted\<close>. The
  probability \<open>1 / 2\<close> gives the bit 0, so with all weights zero the predicted tuple
  is \<open>(0, 0, 0)\<close>.
\<close>

theorem threshold_is_strict:
  "(threshold p = 1 \<longleftrightarrow> 1 / 2 < p) \<and> (threshold p = 0 \<longleftrightarrow> p \<le> 1 / 2) \<and> threshold (1 / 2) = 0
   \<and> (predict_label s (y, x, xs) k pr = Inr pr'
        \<longrightarrow> (\<exists>q. predict (w s ! k) (w_sparse s ! k) x xs = Inr q
                 \<and> pr' = pr[k := (if 1 / 2 < q then 1 else 0)]))
   \<and> (shaped s \<and> length x \<le> D \<and> (\<forall>i\<in>set xs. 0 \<le> i \<and> i < int D_sparse) \<and> length pr = K
        \<longrightarrow> (\<exists>pr'. predict_labels s (y, x, xs) [0..<K] pr = Inr pr' \<and> length pr' = K
               \<and> (\<forall>k<K. \<exists>q. predict (w s ! k) (w_sparse s ! k) x xs = Inr q
                      \<and> (pr' ! k = 1 \<longleftrightarrow> 1 / 2 < q) \<and> (pr' ! k = 0 \<longleftrightarrow> q \<le> 1 / 2))))
   \<and> (shaped s \<and> well_formed (y, x, xs) \<and> is_grid (confusion_matrix ev)
        \<and> length (predicted ev) = K
        \<longrightarrow> (\<exists>ev'. evaluate_observation s (y, x, xs) ev = Inr ev' \<and> length (predicted ev') = K
               \<and> (\<forall>k<K. \<exists>q. predict (w s ! k) (w_sparse s ! k) x xs = Inr q
                      \<and> (predicted ev' ! k = 1 \<longleftrightarrow> 1 / 2 < q)
                      \<and> (predicted ev' ! k = 0 \<longleftrightarrow> q \<le> 1 / 2))))
   \<and> (shaped s \<and> (\<forall>k<K. (\<forall>v\<in>set (w s ! k). v = 0) \<and> (\<forall>v\<in>set (w_sparse s ! k). v = 0))
        \<and> length x \<le> D \<and> (\<forall>i\<in>set xs. 0 \<le> i \<and> i < int D_sparse) \<and> length pr = K
        \<longrightarrow> predict_labels s (y, x, xs) [0..<K] pr = Inr [0, 0, 0])"
proof (intro conjI impI)
  show "threshold p = 1 \<longleftrightarrow> 1 / 2 < p" and "threshold p = 0 \<longleftrightarrow> p \<le> 1 / 2"
    and "threshold (1 / 2) = 0"
    by (simp_all add: threshold_def)
next
  assume "predict_label s (y, x, xs) k pr = Inr pr'"
  from predict_label_eq [OF this]
  show "\<exists>q. predict (w s ! k) (w_sparse s ! k) x xs = Inr q
                 \<and> pr' = pr[k := (if 1 / 2 < q then 1 else 0)]"
    by blast
next
  assume a: "shaped s \<and> length x \<le> D \<and> (\<forall>i\<in>set xs. 0 \<le> i \<and> i < int D_sparse) \<and> length pr = K"
  then have "predict_labels s (y, x, xs) [0..<K] pr = Inr (predicted_tuple s (y, x, xs))"
    by (intro predict_labels_tuple) simp_all
  moreover have "length (predicted_tuple s (y, x, xs)) = K"
    using predicted_tuple_bits by simp
  moreover have "\<forall>k<K. \<exists>q. predict (w s ! k) (w_sparse s ! k) x xs = Inr q
                      \<and> (predicted_tuple s (y, x, xs) ! k = 1 \<longleftrightarrow> 1 / 2 < q)
                      \<and> (predicted_tuple s (y, x, xs) ! k = 0 \<longleftrightarrow> q \<le> 1 / 2)"
    using a predicted_tuple_nth [of s _ x xs y] by simp
  ultimately show "\<exists>pr'. predict_labels s (y, x, xs) [0..<K] pr = Inr pr' \<and> length pr' = K
               \<and> (\<forall>k<K. \<exists>q. predict (w s ! k) (w_sparse s ! k) x xs = Inr q
                      \<and> (pr' ! k = 1 \<longleftrightarrow> 1 / 2 < q) \<and> (pr' ! k = 0 \<longleftrightarrow> q \<le> 1 / 2))"
    by blast
next
  assume a: "shaped s \<and> well_formed (y, x, xs) \<and> is_grid (confusion_matrix ev)
        \<and> length (predicted ev) = K"
  then have wf: "length x \<le> D" "\<forall>i\<in>set xs. 0 \<le> i \<and> i < int D_sparse"
    by (simp_all add: well_formed_def)
  from a evaluate_observation_cell [of s "(y, x, xs)" ev]
  obtain ev' where e: "evaluate_observation s (y, x, xs) ev = Inr ev'"
    and p: "predicted ev' = predicted_tuple s (y, x, xs)"
    by force
  have "length (predicted ev') = K"
    using p predicted_tuple_bits by simp
  moreover have "\<forall>k<K. \<exists>q. predict (w s ! k) (w_sparse s ! k) x xs = Inr q
                      \<and> (predicted ev' ! k = 1 \<longleftrightarrow> 1 / 2 < q)
                      \<and> (predicted ev' ! k = 0 \<longleftrightarrow> q \<le> 1 / 2)"
    unfolding p using a wf predicted_tuple_nth [of s _ x xs y] by simp
  ultimately show "\<exists>ev'. evaluate_observation s (y, x, xs) ev = Inr ev' \<and> length (predicted ev') = K
               \<and> (\<forall>k<K. \<exists>q. predict (w s ! k) (w_sparse s ! k) x xs = Inr q
                      \<and> (predicted ev' ! k = 1 \<longleftrightarrow> 1 / 2 < q)
                      \<and> (predicted ev' ! k = 0 \<longleftrightarrow> q \<le> 1 / 2))"
    using e by blast
next
  assume a: "shaped s \<and> (\<forall>k<K. (\<forall>v\<in>set (w s ! k). v = 0) \<and> (\<forall>v\<in>set (w_sparse s ! k). v = 0))
        \<and> length x \<le> D \<and> (\<forall>i\<in>set xs. 0 \<le> i \<and> i < int D_sparse) \<and> length pr = K"
  then obtain a0 a1 a2 where pr: "pr = [a0, a1, a2]"
    by (auto simp: K_def numeral_3_eq_3 length_Suc_conv)
  have step: "predict_label s (y, x, xs) k qs = Inr (qs[k := 0])" if "k < K" "length qs = K" for k qs
    using a that by (intro predict_label_zero_weights) simp_all
  have "predict_label s (y, x, xs) 0 [a0, a1, a2] = Inr [0, a1, a2]"
    using step [of 0 "[a0, a1, a2]"] by (simp add: K_def)
  moreover have "predict_label s (y, x, xs) 1 [0, a1, a2] = Inr [0, 0, a2]"
    using step [of 1 "[0, a1, a2]"] by (simp add: K_def)
  moreover have "predict_label s (y, x, xs) 2 [0, 0, a2] = Inr [0, 0, 0]"
    using step [of 2 "[0, 0, a2]"] by (simp add: K_def)
  ultimately show "predict_labels s (y, x, xs) [0..<K] pr = Inr [0, 0, 0]"
    by (simp add: upt_K pr)
qed

theorem threshold_is_strict_witness:
  "threshold (1 / 2) = 0 \<and> threshold (3 / 4) = 1
   \<and> predict_label init_trainer ([0, 0, 0], [1, 2], [0, 1, 2]) 1 [1, 1, 1] = Inr [1, 0, 1]
   \<and> predict_labels init_trainer ([0, 0, 0], [1, 2], [0, 1, 2]) [0..<K] [1, 1, 1] = Inr [0, 0, 0]
   \<and> predict_labels (init_trainer\<lparr>w := replicate K [1, 0]\<rparr>) ([0, 0, 0], [1, 2], [0, 1, 2])
        [0..<K] [0, 0, 0] = Inr [1, 1, 1]"
proof -
  let ?s = "init_trainer\<lparr>w := replicate K [1, 0]\<rparr>"
  have z: "\<forall>k<K. (\<forall>v\<in>set (w init_trainer ! k). v = 0) \<and> (\<forall>v\<in>set (w_sparse init_trainer ! k). v = 0)"
    by (simp add: init_trainer_def)
  have l: "predict_label init_trainer ([0, 0, 0], [1, 2], [0, 1, 2]) 1 [1, 1, 1] = Inr [1, 0, 1]"
    using predict_label_zero_weights [OF shaped_init_trainer _ z, of 1 "[1, 2]" "[0, 1, 2]" "[1, 1, 1]"]
    by (simp add: K_def D_def D_sparse_def)
  have "exp (- 1) < (1 :: real)"
    by simp
  then have "1 + exp (- 1) < (2 :: real)"
    by simp
  moreover have "(0 :: real) < 1 + exp (- 1)"
    by (simp add: add_pos_pos)
  ultimately have half: "(1 :: real) / 2 < 1 / (1 + exp (- 1))"
    by (intro divide_strict_left_mono) simp_all
  have hyp: "shaped ?s \<and> length [1, 2 :: real] \<le> D
              \<and> (\<forall>i\<in>set [0, 1, 2]. 0 \<le> i \<and> i < int D_sparse) \<and> length [0, 0, 0 :: int] = K"
    using shaped_first_weight_one by (simp add: K_def D_def D_sparse_def)
  have "shaped ?s \<and> length [1, 2 :: real] \<le> D
              \<and> (\<forall>i\<in>set [0, 1, 2]. 0 \<le> i \<and> i < int D_sparse) \<and> length [0, 0, 0 :: int] = K
        \<longrightarrow> (\<exists>pr'. predict_labels ?s ([0, 0, 0], [1, 2], [0, 1, 2]) [0..<K] [0, 0, 0] = Inr pr'
               \<and> length pr' = K
               \<and> (\<forall>k<K. \<exists>q. predict (w ?s ! k) (w_sparse ?s ! k) [1, 2] [0, 1, 2] = Inr q
                      \<and> (pr' ! k = 1 \<longleftrightarrow> 1 / 2 < q) \<and> (pr' ! k = 0 \<longleftrightarrow> q \<le> 1 / 2)))"
    using threshold_is_strict [where s = ?s and x = "[1, 2]" and xs = "[0, 1, 2]"
        and y = "[0, 0, 0]" and pr = "[0, 0, 0]"]
    by blast
  with hyp obtain pr' where
    r: "predict_labels ?s ([0, 0, 0], [1, 2], [0, 1, 2]) [0..<K] [0, 0, 0] = Inr pr'"
    and len: "length pr' = K"
    and bits: "\<forall>k<K. \<exists>q. predict (w ?s ! k) (w_sparse ?s ! k) [1, 2] [0, 1, 2] = Inr q
                      \<and> (pr' ! k = 1 \<longleftrightarrow> 1 / 2 < q) \<and> (pr' ! k = 0 \<longleftrightarrow> q \<le> 1 / 2)"
    by blast
  have "pr' ! k = 1" if "k < K" for k
  proof -
    from bits that obtain q where
      q: "predict (w ?s ! k) (w_sparse ?s ! k) [1, 2] [0, 1, 2] = Inr q"
      and b: "pr' ! k = 1 \<longleftrightarrow> 1 / 2 < q"
      by blast
    have "w ?s ! k = [1, 0]" "w_sparse ?s ! k = replicate D_sparse 0"
      using that by (simp_all add: init_trainer_def)
    with q have "q = 1 / (1 + exp (- 1))"
      by (simp add: predict_first_weight_one)
    with b half show ?thesis by simp
  qed
  then have "pr' ! 0 = 1" "pr' ! 1 = 1" "pr' ! 2 = 1"
    by (simp_all add: K_def)
  moreover obtain b0 b1 b2 where "pr' = [b0, b1, b2]"
    using len by (auto simp: K_def numeral_3_eq_3 length_Suc_conv)
  ultimately have "pr' = [1, 1, 1]"
    by simp
  with r have one: "predict_labels ?s ([0, 0, 0], [1, 2], [0, 1, 2]) [0..<K] [0, 0, 0] = Inr [1, 1, 1]"
    by simp
  show ?thesis
    using threshold_is_strict [of "3 / 4" init_trainer "[0, 0, 0]" "[1, 2]" "[0, 1, 2]" 1
        "[1, 1, 1]" "[1, 0, 1]"] l z shaped_init_trainer one
    by (simp add: threshold_def K_def D_def D_sparse_def)
qed

end
